theory Spec2Isabelle
  imports Complex_Main "HOL-Library.Char_ord" "HOL-Library.List_Lexorder" "HOL-Library.AList"
    "HOL-Library.Sublist"
begin

section \<open>Shared data model\<close>

text \<open>
  Python exceptions are values of \<open>error\<close>; a function that can raise returns \<open>error + 'a\<close>
  with \<open>Inl\<close> for the exception.  A character is a code point below 256, so a string is
  a text over Latin-1; on these, white space, digits, letters and lower-casing are as in
  Python.  A Python \<^verbatim>\<open>float\<close> is the exact rational value of the double.
\<close>

datatype error =
    ValueError | IndexError | KeyError | TypeError | AttributeError | ImportError
  | ValidationError
  | InvalidOperation | DivisionByZero | DivisionUndefined | Overflow
  | ZeroDivisionError | RuntimeError

record pydate =
  year :: int
  month :: int
  day :: int

definition is_leap :: "int \<Rightarrow> bool" where
  "is_leap y = (y mod 4 = 0 \<and> (y mod 100 \<noteq> 0 \<or> y mod 400 = 0))"

definition days_in_month :: "int \<Rightarrow> int \<Rightarrow> int" where
  "days_in_month y m =
     (if m = 2 then (if is_leap y then 29 else 28)
      else if m = 4 \<or> m = 6 \<or> m = 9 \<or> m = 11 then 30 else 31)"

text \<open>\<^verbatim>\<open>datetime.date(y, m, d)\<close>: raises \<^verbatim>\<open>ValueError\<close> outside the calendar.\<close>

definition date :: "int \<Rightarrow> int \<Rightarrow> int \<Rightarrow> error + pydate" where
  "date y m d =
     (if 1 \<le> y \<and> y \<le> 9999 \<and> 1 \<le> m \<and> m \<le> 12 \<and> 1 \<le> d \<and> d \<le> days_in_month y m
      then Inr \<lparr>year = y, month = m, day = d\<rparr>
      else Inl ValueError)"

section \<open>Section locator (\<^verbatim>\<open>services/section_locator.py\<close>)\<close>

definition digit_char :: "nat \<Rightarrow> char" where
  "digit_char n = ''0123456789'' ! n"

fun str_nat :: "nat \<Rightarrow> string" where
  "str_nat n = (if n < 10 then [digit_char n] else str_nat (n div 10) @ [digit_char (n mod 10)])"

text \<open>\<^verbatim>\<open>str(i)\<close> of a Python \<^verbatim>\<open>int\<close>.\<close>

definition str_int :: "int \<Rightarrow> string" where
  "str_int i = (if i < 0 then CHR ''-'' # str_nat (nat (- i)) else str_nat (nat i))"

record doc_section =
  section_id :: string
  s_section_type :: string
  section_name :: string
  start_page :: int
  end_page :: int
  s_confidence_score :: rat
  detection_method :: string

text \<open>
  \<^verbatim>\<open>_merge_sections\<close>: the loop over the sections sorted by start page (Python's
  \<^verbatim>\<open>sorted\<close> is stable, as \<open>sort_key\<close> is), with the section being extended and the
  list built so far.
\<close>

fun merge_loop :: "doc_section \<Rightarrow> doc_section list \<Rightarrow> doc_section list \<Rightarrow> doc_section list" where
  "merge_loop current [] merged = merged @ [current]"
| "merge_loop current (next_section # rest) merged =
     (if s_section_type next_section = s_section_type current \<and>
         start_page next_section \<le> end_page current + 1
      then merge_loop
             \<lparr>section_id = section_id current,
              s_section_type = s_section_type current,
              section_name = section_name current,
              start_page = start_page current,
              end_page = max (end_page current) (end_page next_section),
              s_confidence_score =
                max (s_confidence_score current) (s_confidence_score next_section),
              detection_method = detection_method current\<rparr>
             rest merged
      else merge_loop next_section rest (merged @ [current]))"

definition merge_sections :: "doc_section list \<Rightarrow> doc_section list" where
  "merge_sections sections =
     (case sort_key start_page sections of
        [] \<Rightarrow> []
      | current # rest \<Rightarrow> merge_loop current rest [])"

text \<open>
  The boundary loop of \<^verbatim>\<open>_locate_sections_regex\<close>, over the header candidates
  \<open>(type, name, start_page)\<close> found by the pattern scan; \<open>last_page\<close> is the page of the
  last text block.
\<close>

fun section_boundaries :: "(string \<times> string \<times> int) list \<Rightarrow> int \<Rightarrow> doc_section list" where
  "section_boundaries [] last_page = []"
| "section_boundaries ((ty, name, start) # candidates) last_page =
     (let end_page =
            (case candidates of
               [] \<Rightarrow> last_page
             | (_, _, next_start) # _ \<Rightarrow>
                 (if next_start - 1 < start then start else next_start - 1))
      in \<lparr>section_id = ''section_'' @ ty @ ''_'' @ str_int start,
          s_section_type = ty, section_name = name, start_page = start,
          end_page = end_page, s_confidence_score = 9 / 10,
          detection_method = ''regex''\<rparr>
         # section_boundaries candidates last_page)"

definition ranges_overlap :: "doc_section \<Rightarrow> doc_section \<Rightarrow> bool" where
  "ranges_overlap a b = (start_page a \<le> end_page b \<and> start_page b \<le> end_page a)"

definition mk_section :: "string \<Rightarrow> int \<Rightarrow> int \<Rightarrow> doc_section" where
  "mk_section ty s e =
     \<lparr>section_id = ''section_'' @ ty @ ''_'' @ str_int s, s_section_type = ty,
      section_name = ty, start_page = s, end_page = e, s_confidence_score = 9 / 10,
      detection_method = ''regex''\<rparr>"

text \<open>Three headers on page 1 of a five-page document.\<close>

definition same_page_headers :: "(string \<times> string \<times> int) list" where
  "same_page_headers =
     [(''income_statement'', ''income_statement'', 1), (''notes'', ''notes'', 1),
      (''income_statement'', ''income_statement'', 1)]"

section \<open>Blockification service (\<^verbatim>\<open>services/blockification.py\<close>)\<close>

text \<open>
  White space of \<^verbatim>\<open>str.strip\<close>, \<^verbatim>\<open>str.isspace\<close> and the regex class \<^verbatim>\<open>\s\<close>, among the code
  points below 256.
\<close>

definition is_space :: "char \<Rightarrow> bool" where
  "is_space c = (c \<in> set [CHR 0x09, CHR 0x0A, CHR 0x0B, CHR 0x0C, CHR 0x0D,
                           CHR 0x1C, CHR 0x1D, CHR 0x1E, CHR 0x1F, CHR 0x20,
                           CHR 0x85, CHR 0xA0])"

definition strip :: "string \<Rightarrow> string" where
  "strip s = rev (dropWhile is_space (rev (dropWhile is_space s)))"

text \<open>A table; its cells are the strings \<^verbatim>\<open>str(cell)\<close> of the source's cells.\<close>

record table_block =
  table_id :: string
  page_number :: int
  headers :: "string list list"
  data :: "string list list"

definition tables_similar :: "table_block \<Rightarrow> table_block \<Rightarrow> bool" where
  "tables_similar table1 table2 =
     (if page_number table1 \<noteq> page_number table2 then False
      else
        let rows1 = int (length (data table1));
            cols1 = (case data table1 of [] \<Rightarrow> 0 | row # _ \<Rightarrow> int (length row));
            rows2 = int (length (data table2));
            cols2 = (case data table2 of [] \<Rightarrow> 0 | row # _ \<Rightarrow> int (length row))
        in if \<bar>rows1 - rows2\<bar> > 2 \<or> \<bar>cols1 - cols2\<bar> > 1 then False
           else (case (data table1, data table2) of
                   ((c1 # _) # _, (c2 # _) # _) \<Rightarrow>
                     (let cell1 = strip c1; cell2 = strip c2
                      in cell1 \<noteq> [] \<and> cell2 \<noteq> [] \<and> cell1 = cell2)
                 | _ \<Rightarrow> False))"

text \<open>
  \<^verbatim>\<open>_merge_tables\<close>.  \<open>tables_by_page\<close> is the dictionary in insertion order; the first loop
  files every Camelot table under its page, the second adds a pdfplumber table unless a
  table already filed under its page is similar to it.
\<close>

fun add_camelot ::
  "(int \<times> table_block list) list \<Rightarrow> table_block list \<Rightarrow> (int \<times> table_block list) list" where
  "add_camelot tables_by_page [] = tables_by_page"
| "add_camelot tables_by_page (table # tables) =
     (let page = page_number table;
          existing = (case map_of tables_by_page page of None \<Rightarrow> [] | Some ts \<Rightarrow> ts)
      in add_camelot (AList.update page (existing @ [table]) tables_by_page) tables)"

fun add_pdfplumber ::
  "(int \<times> table_block list) list \<Rightarrow> table_block list \<Rightarrow> (int \<times> table_block list) list" where
  "add_pdfplumber tables_by_page [] = tables_by_page"
| "add_pdfplumber tables_by_page (table # tables) =
     (let page = page_number table
      in case map_of tables_by_page page of
           None \<Rightarrow> add_pdfplumber (AList.update page [table] tables_by_page) tables
         | Some existing \<Rightarrow>
             (let is_duplicate = list_ex (\<lambda>existing_table. tables_similar table existing_table)
                                   existing
              in if \<not> is_duplicate
                 then add_pdfplumber (AList.update page (existing @ [table]) tables_by_page)
                        tables
                 else add_pdfplumber tables_by_page tables))"

definition merge_tables :: "table_block list \<Rightarrow> table_block list \<Rightarrow> table_block list" where
  "merge_tables camelot_tables pdfplumber_tables =
     (let tables_by_page = add_pdfplumber (add_camelot [] camelot_tables) pdfplumber_tables
      in concat (map (\<lambda>page. case map_of tables_by_page page of None \<Rightarrow> [] | Some ts \<Rightarrow> ts)
                   (sort (map fst tables_by_page))))"

text \<open>The three tests of the similarity rule, in the specification's words.\<close>

definition row_count :: "table_block \<Rightarrow> int" where
  "row_count t = int (length (data t))"

definition col_count :: "table_block \<Rightarrow> int" where
  "col_count t = (case data t of [] \<Rightarrow> 0 | row # _ \<Rightarrow> int (length row))"

definition first_cell :: "table_block \<Rightarrow> string" where
  "first_cell t = (case data t of (c # _) # _ \<Rightarrow> strip c | _ \<Rightarrow> [])"

definition mk_table :: "string \<Rightarrow> int \<Rightarrow> string list list \<Rightarrow> table_block" where
  "mk_table tid page rows = \<lparr>table_id = tid, page_number = page, headers = [], data = rows\<rparr>"

definition camelot_twins :: "table_block list" where
  "camelot_twins =
     [mk_table ''lattice_1'' 3 [[''Revenue'', ''1100'', ''1000'']],
      mk_table ''stream_1'' 3 [[''Revenue'', ''1100'', ''1000'']]]"

definition camelot_pair :: "table_block list" where
  "camelot_pair =
     [mk_table ''lattice_1'' 3 [[''Revenue'', ''1100'', ''1000'']],
      mk_table ''lattice_2'' 3 [[''Total assets'', ''500'', ''450'']]]"

definition pdfplumber_three :: "table_block list" where
  "pdfplumber_three =
     [mk_table ''plumber_1'' 3 [['' Revenue '', ''1100'', ''1000''], [''Costs'', ''1'', ''2'']],
      mk_table ''plumber_2'' 3 [[''Borrowings'', ''70'']],
      mk_table ''plumber_3'' 1 [[''Revenue'', ''1100'', ''1000'']]]"

section \<open>Financial metrics (\<^verbatim>\<open>models/schemas.py\<close>)\<close>

datatype entity_type = CONSOLIDATED | PARENT | SUBSIDIARY

datatype extraction_method = TABLE | TEXT | CALCULATED

datatype json = JNull | JBool bool | JNum rat | JStr string | JArr "json list"
  | JObj "(string \<times> json) list"

text \<open>\<^verbatim>\<open>Decimal.__truediv__\<close>: a zero divisor raises.\<close>

definition dec_div :: "rat \<Rightarrow> rat \<Rightarrow> error + rat" where
  "dec_div a b = (if b = 0 then Inl ZeroDivisionError else Inr (a / b))"

record financial_metric =
  metric_id :: string
  m_metric_name :: string
  m_value :: rat
  m_currency :: string
  m_scale :: string
  m_period_end_date :: "pydate option"
  m_entity_type :: entity_type
  m_extraction_method :: "extraction_method option"
  m_notes :: "string option"
  llm_reasoning :: "json option"
  llm_confidence :: "json option"



section \<open>Derived metrics (\<^verbatim>\<open>analysis/derived_metrics.py\<close>)\<close>

text \<open>\<^verbatim>\<open>int(s)\<close> for a string of ASCII digits, the most significant first.\<close>

definition is_digit :: "char \<Rightarrow> bool" where
  "is_digit c = (c \<in> set ''0123456789'')"

definition digit_val :: "char \<Rightarrow> nat" where
  "digit_val c = of_char c - 48"

fun digits_val :: "string \<Rightarrow> nat" where
  "digits_val [] = 0"
| "digits_val (c # cs) = digit_val c * 10 ^ length cs + digits_val cs"

text \<open>
  \<^verbatim>\<open>str.lower\<close> on the code points below 256: the letters \<^verbatim>\<open>A\<close> to \<^verbatim>\<open>Z\<close> and the Latin-1
  capitals \<^verbatim>\<open>U+00C0\<close> to \<^verbatim>\<open>U+00DE\<close> (without the sign \<^verbatim>\<open>U+00D7\<close>) move up by 32.
\<close>

definition lower_char :: "char \<Rightarrow> char" where
  "lower_char c =
     (case map_of (zip ''ABCDEFGHIJKLMNOPQRSTUVWXYZ'' ''abcdefghijklmnopqrstuvwxyz'') c of
        None \<Rightarrow>
          (if (0xC0 :: nat) \<le> of_char c \<and> of_char c \<le> (0xDE :: nat) \<and>
              of_char c \<noteq> (0xD7 :: nat)
           then char_of (of_char c + (32 :: nat)) else c)
      | Some l \<Rightarrow> l)"

definition lower :: "string \<Rightarrow> string" where
  "lower s = map lower_char s"

record validation_config =
  yoy_growth_max :: rat
  yoy_growth_min :: rat
  margin_max :: rat
  margin_min :: rat

text \<open>\<^verbatim>\<open>d[k]\<close> on a dictionary.\<close>

definition dict_get :: "('k \<times> 'v) list \<Rightarrow> 'k \<Rightarrow> error + 'v" where
  "dict_get d k = (case map_of d k of None \<Rightarrow> Inl KeyError | Some v \<Rightarrow> Inr v)"

text \<open>
  \<^verbatim>\<open>_create_metrics_dict\<close>: \<open>{name: {period: metric}}\<close> with the period key \<^verbatim>\<open>str(year)\<close>; a
  later metric of the same name and year replaces the earlier one.  A metric without a
  period end date has no \<^verbatim>\<open>.year\<close>.
\<close>

fun create_metrics_dict ::
  "(string \<times> (string \<times> financial_metric) list) list \<Rightarrow> financial_metric list
     \<Rightarrow> error + (string \<times> (string \<times> financial_metric) list) list" where
  "create_metrics_dict metrics_dict [] = Inr metrics_dict"
| "create_metrics_dict metrics_dict (metric # metrics) =
     (let name = map (\<lambda>c. if c = CHR '' '' then CHR ''_'' else c) (lower (m_metric_name metric))
      in case m_period_end_date metric of
           None \<Rightarrow> Inl AttributeError
         | Some d \<Rightarrow>
            (let period = str_int (year d);
                 by_period = (case map_of metrics_dict name of None \<Rightarrow> [] | Some ps \<Rightarrow> ps)
             in create_metrics_dict
                  (AList.update name (AList.update period metric by_period) metrics_dict)
                  metrics))"

text \<open>
  \<^verbatim>\<open>_calculate_growth_rate\<close>, with the rates it logs as out of bounds.  The \<^verbatim>\<open>except\<close>
  clause turns an arithmetic exception into \<^verbatim>\<open>None\<close>.
\<close>

definition calculate_growth_rate ::
  "validation_config \<Rightarrow> rat \<Rightarrow> rat \<Rightarrow> rat option \<times> rat list" where
  "calculate_growth_rate config current_value prior_value =
     (if prior_value = 0 then (None, [])
      else case dec_div (current_value - prior_value) \<bar>prior_value\<bar> of
             Inl e \<Rightarrow> (None, [])
           | Inr growth_rate \<Rightarrow>
               (Some growth_rate,
                if growth_rate > yoy_growth_max config \<or> growth_rate < yoy_growth_min config
                then [growth_rate] else []))"

definition growth_targets :: "(string \<times> string) list" where
  "growth_targets =
     [(''revenue'', ''Revenue Growth''),
      (''ebitda'', ''EBITDA Growth''),
      (''net_income'', ''Net Income Growth''),
      (''operating_profit'', ''Operating Profit Growth'')]"

text \<open>
  One pass of the inner loop of \<^verbatim>\<open>_compute_growth_rates\<close>, for the index \<open>i\<close> of
  \<^verbatim>\<open>range(1, len(periods))\<close>: the metrics it appends and the warnings it logs.
\<close>

definition growth_step ::
  "validation_config \<Rightarrow> string \<Rightarrow> string \<Rightarrow> (string \<times> financial_metric) list \<Rightarrow> string list
     \<Rightarrow> nat \<Rightarrow> error + financial_metric list \<times> rat list" where
  "growth_step config metric_key metric_name by_period periods i =
     (let current_period = periods ! i;
          prior_period = periods ! (i - 1)
      in case dict_get by_period current_period of
           Inl e \<Rightarrow> Inl e
         | Inr current_metric \<Rightarrow>
            (case dict_get by_period prior_period of
               Inl e \<Rightarrow> Inl e
             | Inr prior_metric \<Rightarrow>
                (case calculate_growth_rate config (m_value current_metric)
                        (m_value prior_metric) of
                   (None, warnings) \<Rightarrow> Inr ([], warnings)
                 | (Some growth_rate, warnings) \<Rightarrow>
                     Inr ([\<lparr>metric_id = metric_key @ ''_growth_'' @ current_period,
                             m_metric_name = metric_name @ '' YoY'',
                             m_value = growth_rate,
                             m_currency = [],
                             m_scale = ''actual'',
                             m_period_end_date = m_period_end_date current_metric,
                             m_entity_type = m_entity_type current_metric,
                             m_extraction_method = Some CALCULATED,
                             m_notes = Some (''Calculated from '' @ prior_period @ '' to ''
                                              @ current_period),
                             llm_reasoning = None,
                             llm_confidence = None\<rparr>], warnings))))"

fun growth_loop ::
  "validation_config \<Rightarrow> string \<Rightarrow> string \<Rightarrow> (string \<times> financial_metric) list \<Rightarrow> string list
     \<Rightarrow> nat list \<Rightarrow> error + financial_metric list \<times> rat list" where
  "growth_loop config metric_key metric_name by_period periods [] = Inr ([], [])"
| "growth_loop config metric_key metric_name by_period periods (i # is) =
     (case growth_step config metric_key metric_name by_period periods i of
        Inl e \<Rightarrow> Inl e
      | Inr (ms, ws) \<Rightarrow>
         (case growth_loop config metric_key metric_name by_period periods is of
            Inl e \<Rightarrow> Inl e
          | Inr (ms', ws') \<Rightarrow> Inr (ms @ ms', ws @ ws')))"

fun growth_targets_loop ::
  "validation_config \<Rightarrow> (string \<times> (string \<times> financial_metric) list) list
     \<Rightarrow> (string \<times> string) list \<Rightarrow> error + financial_metric list \<times> rat list" where
  "growth_targets_loop config metrics_dict [] = Inr ([], [])"
| "growth_targets_loop config metrics_dict ((metric_key, metric_name) # targets) =
     (case map_of metrics_dict metric_key of
        None \<Rightarrow> growth_targets_loop config metrics_dict targets
      | Some by_period \<Rightarrow>
         (let periods = sort (map fst by_period)
          in case growth_loop config metric_key metric_name by_period periods
                    [1 ..< length periods] of
               Inl e \<Rightarrow> Inl e
             | Inr (ms, ws) \<Rightarrow>
                (case growth_targets_loop config metrics_dict targets of
                   Inl e \<Rightarrow> Inl e
                 | Inr (ms', ws') \<Rightarrow> Inr (ms @ ms', ws @ ws'))))"

definition compute_growth_rates ::
  "validation_config \<Rightarrow> (string \<times> (string \<times> financial_metric) list) list
     \<Rightarrow> error + financial_metric list \<times> rat list" where
  "compute_growth_rates config metrics_dict =
     growth_targets_loop config metrics_dict growth_targets"







definition default_config :: validation_config where
  "default_config = \<lparr>yoy_growth_max = 5,
                     yoy_growth_min = - (8106479329266893 / 9007199254740992),
                     margin_max = 1, margin_min = - 1\<rparr>"

definition mk_metric :: "string \<Rightarrow> rat \<Rightarrow> pydate \<Rightarrow> financial_metric" where
  "mk_metric name v d =
     \<lparr>metric_id = name, m_metric_name = name, m_value = v, m_currency = ''GBP'',
      m_scale = ''millions'', m_period_end_date = Some d, m_entity_type = CONSOLIDATED,
      m_extraction_method = Some TABLE, m_notes = None, llm_reasoning = None,
      llm_confidence = None\<rparr>"




definition revenue_early_years :: "financial_metric list" where
  "revenue_early_years =
     [mk_metric ''revenue'' 1000 \<lparr>year = 999, month = 12, day = 31\<rparr>,
      mk_metric ''revenue'' 1100 \<lparr>year = 1000, month = 12, day = 31\<rparr>]"

section \<open>Python's \<^verbatim>\<open>re\<close> on the patterns of the sources\<close>

text \<open>
  The patterns of \<^verbatim>\<open>utils/periods.py\<close> and \<^verbatim>\<open>services/candidate_generator.py\<close> use
  literals, character classes, repetition of a character class (greedy, or lazy as in
  \<^verbatim>\<open>.*?\<close>), optional parts, alternation, capturing groups that are neither nested nor
  repeated, and \<^verbatim>\<open>\b\<close>.  \<open>rx\<close> is this fragment.  A string is matched by backtracking:
  \<open>rx_match\<close> returns every way to match at the start of the input, in the order in which
  Python's matcher tries them, so its head is the match Python reports.
\<close>

datatype cclass = In "char list" | NotIn "char list"

datatype rx =
    Eps
  | Lit string
  | Cls cclass
  | Rep cclass nat "nat option" bool
  | Seq rx rx
  | Alt rx rx
  | Opt rx
  | Grp rx
  | WordB

definition upper_char :: "char \<Rightarrow> char" where
  "upper_char c =
     (case map_of (zip ''abcdefghijklmnopqrstuvwxyz'' ''ABCDEFGHIJKLMNOPQRSTUVWXYZ'') c of
        None \<Rightarrow> c | Some u \<Rightarrow> u)"

text \<open>Matching of one character; \<open>ic\<close> is the flag \<^verbatim>\<open>re.IGNORECASE\<close>.\<close>

definition char_eq :: "bool \<Rightarrow> char \<Rightarrow> char \<Rightarrow> bool" where
  "char_eq ic p c = (p = c \<or> (ic \<and> lower_char p = lower_char c))"

definition in_chars :: "bool \<Rightarrow> char list \<Rightarrow> char \<Rightarrow> bool" where
  "in_chars ic cs c =
     (c \<in> set cs \<or> (ic \<and> (lower_char c \<in> set cs \<or> upper_char c \<in> set cs)))"

fun in_class :: "bool \<Rightarrow> cclass \<Rightarrow> char \<Rightarrow> bool" where
  "in_class ic (In cs) c = in_chars ic cs c"
| "in_class ic (NotIn cs) c = (\<not> in_chars ic cs c)"

definition digit_cls :: cclass where
  "digit_cls = In ''0123456789''"

definition space_cls :: cclass where
  "space_cls = In [CHR 0x09, CHR 0x0A, CHR 0x0B, CHR 0x0C, CHR 0x0D,
                   CHR 0x1C, CHR 0x1D, CHR 0x1E, CHR 0x1F, CHR 0x20,
                   CHR 0x85, CHR 0xA0]"

definition alpha_cls :: cclass where
  "alpha_cls = In ''ABCDEFGHIJKLMNOPQRSTUVWXYZabcdefghijklmnopqrstuvwxyz''"

definition word_cls :: cclass where
  "word_cls = In ''ABCDEFGHIJKLMNOPQRSTUVWXYZabcdefghijklmnopqrstuvwxyz0123456789_''"

text \<open>The state of a match: the groups closed so far, the character in front of the position
  (for \<^verbatim>\<open>\b\<close>), and the rest of the input.\<close>

type_synonym mstate = "string list \<times> char option \<times> string"

definition is_word_at :: "char option \<Rightarrow> bool" where
  "is_word_at c = (case c of None \<Rightarrow> False | Some x \<Rightarrow> in_class False word_cls x)"

fun rx_match :: "bool \<Rightarrow> rx \<Rightarrow> mstate \<Rightarrow> mstate list" where
  "rx_match ic Eps st = [st]"
| "rx_match ic (Lit s) (caps, prev, inp) =
     (if length s \<le> length inp \<and> list_all2 (char_eq ic) s (take (length s) inp)
      then [(caps, (if s = [] then prev else Some (inp ! (length s - 1))), drop (length s) inp)]
      else [])"
| "rx_match ic (Cls k) (caps, prev, inp) =
     (case inp of
        [] \<Rightarrow> []
      | c # cs \<Rightarrow> if in_class ic k c then [(caps, Some c, cs)] else [])"
| "rx_match ic (Rep k lo hi greedy) (caps, prev, inp) =
     (let n = length (takeWhile (in_class ic k) inp);
          top = (case hi of None \<Rightarrow> n | Some h \<Rightarrow> min h n);
          counts = (if greedy then rev [lo ..< Suc top] else [lo ..< Suc top])
      in map (\<lambda>j. (caps, (if j = 0 then prev else Some (inp ! (j - 1))), drop j inp)) counts)"
| "rx_match ic (Seq r1 r2) st = concat (map (rx_match ic r2) (rx_match ic r1 st))"
| "rx_match ic (Alt r1 r2) st = rx_match ic r1 st @ rx_match ic r2 st"
| "rx_match ic (Opt r) st = rx_match ic r st @ [st]"
| "rx_match ic (Grp r) (caps, prev, inp) =
     map (\<lambda>(caps', prev', rest). (caps' @ [take (length inp - length rest) inp], prev', rest))
       (rx_match ic r (caps, prev, inp))"
| "rx_match ic WordB (caps, prev, inp) =
     (if is_word_at prev \<noteq> is_word_at (case inp of [] \<Rightarrow> None | c # _ \<Rightarrow> Some c)
      then [(caps, prev, inp)] else [])"

text \<open>A concatenation written as a list.\<close>

definition seq :: "rx list \<Rightarrow> rx" where
  "seq rs = foldr Seq rs Eps"

text \<open>
  \<^verbatim>\<open>re.search\<close>: the first position, from the left, at which the pattern matches; the
  result is the text pre the match, the matched text and the groups.
\<close>

fun search_from ::
  "bool \<Rightarrow> rx \<Rightarrow> string \<Rightarrow> char option \<Rightarrow> string \<Rightarrow> (string \<times> string \<times> string list) option"
  where
  "search_from ic r pre prev [] =
     (case rx_match ic r ([], prev, []) of
        [] \<Rightarrow> None
      | (caps, _, rest) # _ \<Rightarrow> Some (pre, [], caps))"
| "search_from ic r pre prev (c # cs) =
     (case rx_match ic r ([], prev, c # cs) of
        [] \<Rightarrow> search_from ic r (pre @ [c]) (Some c) cs
      | (caps, _, rest) # _ \<Rightarrow>
          Some (pre, take (length (c # cs) - length rest) (c # cs), caps))"

definition re_search :: "bool \<Rightarrow> rx \<Rightarrow> string \<Rightarrow> (string \<times> string \<times> string list) option"
  where
  "re_search ic r s = search_from ic r [] None s"

text \<open>
  \<^verbatim>\<open>re.sub\<close> with a constant replacement: every match, from the left, without overlap.
  \<open>skip\<close> counts the characters of the current match that are still to be passed.
\<close>

fun sub_scan :: "bool \<Rightarrow> rx \<Rightarrow> string \<Rightarrow> nat \<Rightarrow> char option \<Rightarrow> string \<Rightarrow> string" where
  "sub_scan ic r repl skip prev [] =
     (if skip = 0 \<and> rx_match ic r ([], prev, []) \<noteq> [] then repl else [])"
| "sub_scan ic r repl skip prev (c # cs) =
     (if skip > 0 then sub_scan ic r repl (skip - 1) (Some c) cs
      else case rx_match ic r ([], prev, c # cs) of
             [] \<Rightarrow> c # sub_scan ic r repl 0 (Some c) cs
           | (caps, _, rest) # _ \<Rightarrow>
               (let n = length (c # cs) - length rest
                in if n = 0 then repl @ c # sub_scan ic r repl 0 (Some c) cs
                   else repl @ sub_scan ic r repl (n - 1) (Some c) cs))"

definition re_sub :: "bool \<Rightarrow> rx \<Rightarrow> string \<Rightarrow> string \<Rightarrow> string" where
  "re_sub ic r repl s = sub_scan ic r repl 0 None s"

text \<open>\<^verbatim>\<open>needle in haystack\<close> on strings.\<close>

fun str_contains :: "string \<Rightarrow> string \<Rightarrow> bool" where
  "str_contains [] needle = (needle = [])"
| "str_contains (c # cs) needle = (prefix needle (c # cs) \<or> str_contains cs needle)"

text \<open>
  The number of capturing groups of a pattern.  \<^verbatim>\<open>match.groups()\<close> has one entry for each of
  them; the list of closed groups of \<open>rx_match\<close> is that tuple when no group stands inside an
  alternative, an optional part or another group (\<open>plain\<close>), as in all patterns of the sources.
\<close>

fun n_groups :: "rx \<Rightarrow> nat" where
  "n_groups (Seq r1 r2) = n_groups r1 + n_groups r2"
| "n_groups (Alt r1 r2) = n_groups r1 + n_groups r2"
| "n_groups (Opt r) = n_groups r"
| "n_groups (Grp r) = Suc (n_groups r)"
| "n_groups _ = 0"

fun plain :: "rx \<Rightarrow> bool" where
  "plain (Seq r1 r2) = (plain r1 \<and> plain r2)"
| "plain (Alt r1 r2) = (n_groups r1 = 0 \<and> n_groups r2 = 0)"
| "plain (Opt r) = (n_groups r = 0)"
| "plain (Grp r) = (n_groups r = 0)"
| "plain _ = True"

section \<open>Period parser (\<^verbatim>\<open>utils/periods.py\<close>)\<close>

datatype period_type = FISCAL_YEAR | QUARTER | HALF_YEAR

record period =
  period_type :: period_type
  p_start_date :: pydate
  p_end_date :: pydate
  p_fiscal_year :: int
  p_quarter :: "int option"
  p_half :: "int option"
  original_label :: string

definition sp0 :: rx where
  "sp0 = Rep space_cls 0 None True"

definition sp1 :: rx where
  "sp1 = Rep space_cls 1 None True"

text \<open>\<^verbatim>\<open>(\d{1,2})\s+([A-Za-z]+)\s+(\d{4})\<close>, the tail of five of the patterns.\<close>

definition day_month_year :: rx where
  "day_month_year =
     seq [Grp (Rep digit_cls 1 (Some 2) True), sp1, Grp (Rep alpha_cls 1 None True), sp1,
          Grp (Rep digit_cls 4 (Some 4) True)]"

definition FY_PATTERNS :: "rx list" where
  "FY_PATTERNS =
     [seq [Alt (Lit ''FY'') (seq [Lit ''Fiscal'', sp1, Lit ''Year'']), sp0,
           Opt (Cls (In '':-'')), sp0, Grp (Rep digit_cls 4 (Some 4) True)],
      seq [Alt (seq [Lit ''Year'', sp1, Lit ''ende'', Opt (Lit ''d'')]) (Lit ''YE''), sp1,
           day_month_year],
      day_month_year,
      seq [Grp (Rep digit_cls 4 (Some 4) True), sp0, Cls (In ''-/''), sp0,
           Grp (Rep digit_cls 2 (Some 4) True)],
      seq [Lit ''For'', sp1, Lit ''the'', sp1, Lit ''year'', sp1, Lit ''ende'', Opt (Lit ''d''),
           sp1, day_month_year]]"

definition QUARTER_PATTERNS :: "rx list" where
  "QUARTER_PATTERNS =
     [seq [Alt (Lit ''Q'') (Lit ''Quarter''), sp0, Grp (Cls digit_cls), sp0, Opt (Lit ''FY''),
           Grp (Rep digit_cls 4 (Some 4) True)],
      seq [Grp (Cls digit_cls), Alt (Lit ''st'') (Alt (Lit ''nd'') (Alt (Lit ''rd'') (Lit ''th''))),
           sp1, Lit ''Quarter'', sp1, Grp (Rep digit_cls 4 (Some 4) True)],
      seq [Lit ''Three'', sp1, Lit ''months'', sp1, Lit ''ende'', Opt (Lit ''d''), sp1,
           day_month_year]]"

definition HALF_YEAR_PATTERNS :: "rx list" where
  "HALF_YEAR_PATTERNS =
     [seq [Alt (Lit ''H'') (Lit ''Half''), sp0, Grp (Cls digit_cls), sp0, Opt (Lit ''FY''),
           Grp (Rep digit_cls 4 (Some 4) True)],
      seq [Lit ''Six'', sp1, Lit ''months'', sp1, Lit ''ende'', Opt (Lit ''d''), sp1,
           day_month_year]]"

definition MONTH_MAP :: "(string \<times> int) list" where
  "MONTH_MAP =
     [(''january'', 1), (''jan'', 1), (''february'', 2), (''feb'', 2), (''march'', 3),
      (''mar'', 3), (''april'', 4), (''apr'', 4), (''may'', 5), (''june'', 6), (''jun'', 6),
      (''july'', 7), (''jul'', 7), (''august'', 8), (''aug'', 8), (''september'', 9),
      (''sep'', 9), (''sept'', 9), (''october'', 10), (''oct'', 10), (''november'', 11),
      (''nov'', 11), (''december'', 12), (''dec'', 12)]"

text \<open>\<^verbatim>\<open>self.MONTH_MAP.get(month_str[:3])\<close> for \<^verbatim>\<open>month_str = groups[1].lower()\<close>.\<close>

definition month_of :: "string \<Rightarrow> int option" where
  "month_of g = map_of MONTH_MAP (take 3 (lower g))"

text \<open>\<^verbatim>\<open>int(s)\<close> for a group of digits.\<close>

definition int_of_digits :: "string \<Rightarrow> int" where
  "int_of_digits s = int (digits_val s)"

text \<open>
  \<^verbatim>\<open>_parse_fiscal_year\<close>: the loop over the patterns; \<^verbatim>\<open>continue\<close> is the recursive call.
  \<^verbatim>\<open>date(...)\<close> may raise, and nothing catches it.
\<close>

fun parse_fiscal_year :: "rx list \<Rightarrow> string \<Rightarrow> error + period option" where
  "parse_fiscal_year [] label = Inr None"
| "parse_fiscal_year (pattern # patterns) label =
     (case re_search True pattern label of
        None \<Rightarrow> parse_fiscal_year patterns label
      | Some (_, _, groups) \<Rightarrow>
         (case groups of
            [g0] \<Rightarrow>
              (let fiscal_year = int_of_digits g0
               in case date fiscal_year 12 31 of
                    Inl e \<Rightarrow> Inl e
                  | Inr end_date \<Rightarrow>
                     (case date (fiscal_year - 1) 1 1 of
                        Inl e \<Rightarrow> Inl e
                      | Inr start_date \<Rightarrow>
                          Inr (Some \<lparr>period_type = FISCAL_YEAR, p_start_date = start_date,
                                     p_end_date = end_date, p_fiscal_year = fiscal_year,
                                     p_quarter = None, p_half = None, original_label = label\<rparr>)))
          | [g0, g1, g2] \<Rightarrow>
              (let day = int_of_digits g0; year = int_of_digits g2
               in case month_of g1 of
                    None \<Rightarrow> parse_fiscal_year patterns label
                  | Some month' \<Rightarrow>
                     (case date year month' day of
                        Inl e \<Rightarrow> Inl e
                      | Inr end_date \<Rightarrow>
                         (case date (year - 1) month' (if day < 28 then day + 1 else 1) of
                            Inl e \<Rightarrow> Inl e
                          | Inr start_date \<Rightarrow>
                              Inr (Some \<lparr>period_type = FISCAL_YEAR, p_start_date = start_date,
                                         p_end_date = end_date, p_fiscal_year = year,
                                         p_quarter = None, p_half = None,
                                         original_label = label\<rparr>))))
          | [g0, g1] \<Rightarrow>
              (let year1 = int_of_digits g0;
                   year2 = (if length g1 = 2 then int_of_digits (take 2 (str_int year1) @ g1)
                            else int_of_digits g1)
               in case date year2 12 31 of
                    Inl e \<Rightarrow> Inl e
                  | Inr end_date \<Rightarrow>
                     (case date year1 1 1 of
                        Inl e \<Rightarrow> Inl e
                      | Inr start_date \<Rightarrow>
                          Inr (Some \<lparr>period_type = FISCAL_YEAR, p_start_date = start_date,
                                     p_end_date = end_date, p_fiscal_year = year2,
                                     p_quarter = None, p_half = None, original_label = label\<rparr>)))
          | _ \<Rightarrow> parse_fiscal_year patterns label))"

definition quarter_starts :: "(int \<times> int \<times> int) list" where
  "quarter_starts = [(1, (1, 1)), (2, (4, 1)), (3, (7, 1)), (4, (10, 1))]"

definition quarter_ends :: "(int \<times> int \<times> int) list" where
  "quarter_ends = [(1, (3, 31)), (2, (6, 30)), (3, (9, 30)), (4, (12, 31))]"

fun parse_quarter :: "rx list \<Rightarrow> string \<Rightarrow> error + period option" where
  "parse_quarter [] label = Inr None"
| "parse_quarter (pattern # patterns) label =
     (case re_search True pattern label of
        None \<Rightarrow> parse_quarter patterns label
      | Some (_, _, groups) \<Rightarrow>
         (case groups of
            [g0, g1] \<Rightarrow>
              (if g0 \<noteq> [] \<and> list_all is_digit g0
               then (let q = int_of_digits g0; fiscal_year = int_of_digits g1
                     in case dict_get quarter_starts q of
                          Inl e \<Rightarrow> Inl e
                        | Inr (start_month, start_day) \<Rightarrow>
                           (case dict_get quarter_ends q of
                              Inl e \<Rightarrow> Inl e
                            | Inr (end_month, end_day) \<Rightarrow>
                               (case date fiscal_year start_month start_day of
                                  Inl e \<Rightarrow> Inl e
                                | Inr start_date \<Rightarrow>
                                   (case date fiscal_year end_month end_day of
                                      Inl e \<Rightarrow> Inl e
                                    | Inr end_date \<Rightarrow>
                                        Inr (Some \<lparr>period_type = QUARTER,
                                                   p_start_date = start_date,
                                                   p_end_date = end_date,
                                                   p_fiscal_year = fiscal_year,
                                                   p_quarter = Some q, p_half = None,
                                                   original_label = label\<rparr>)))))
               else parse_quarter patterns label)
          | [g0, g1, g2] \<Rightarrow>
              (let day = int_of_digits g0; year = int_of_digits g2
               in case month_of g1 of
                    None \<Rightarrow> parse_quarter patterns label
                  | Some month' \<Rightarrow>
                     (case date year month' day of
                        Inl e \<Rightarrow> Inl e
                      | Inr end_date \<Rightarrow>
                         (let start_month = (if month' > 3 then month' - 3 else month' + 9);
                              start_year = (if month' > 3 then year else year - 1)
                          in case date start_year start_month day of
                               Inl e \<Rightarrow> Inl e
                             | Inr start_date \<Rightarrow>
                                 Inr (Some \<lparr>period_type = QUARTER, p_start_date = start_date,
                                            p_end_date = end_date, p_fiscal_year = year,
                                            p_quarter = Some ((month' - 1) div 3 + 1),
                                            p_half = None, original_label = label\<rparr>))))
          | _ \<Rightarrow> parse_quarter patterns label))"

fun parse_half_year :: "rx list \<Rightarrow> string \<Rightarrow> error + period option" where
  "parse_half_year [] label = Inr None"
| "parse_half_year (pattern # patterns) label =
     (case re_search True pattern label of
        None \<Rightarrow> parse_half_year patterns label
      | Some (_, _, groups) \<Rightarrow>
         (case groups of
            [g0, g1] \<Rightarrow>
              (if g0 \<noteq> [] \<and> list_all is_digit g0
               then (let h = int_of_digits g0; fiscal_year = int_of_digits g1
                     in case (if h = 1 then date fiscal_year 1 1 else date fiscal_year 7 1) of
                          Inl e \<Rightarrow> Inl e
                        | Inr start_date \<Rightarrow>
                           (case (if h = 1 then date fiscal_year 6 30
                                  else date fiscal_year 12 31) of
                              Inl e \<Rightarrow> Inl e
                            | Inr end_date \<Rightarrow>
                                Inr (Some \<lparr>period_type = HALF_YEAR, p_start_date = start_date,
                                           p_end_date = end_date, p_fiscal_year = fiscal_year,
                                           p_quarter = None, p_half = Some h,
                                           original_label = label\<rparr>)))
               else parse_half_year patterns label)
          | [g0, g1, g2] \<Rightarrow>
              (let day = int_of_digits g0; year = int_of_digits g2
               in case month_of g1 of
                    None \<Rightarrow> parse_half_year patterns label
                  | Some month' \<Rightarrow>
                     (case date year month' day of
                        Inl e \<Rightarrow> Inl e
                      | Inr end_date \<Rightarrow>
                         (let start_month = (if month' > 6 then month' - 6 else month' + 6);
                              start_year = (if month' > 6 then year else year - 1)
                          in case date start_year start_month day of
                               Inl e \<Rightarrow> Inl e
                             | Inr start_date \<Rightarrow>
                                 Inr (Some \<lparr>period_type = HALF_YEAR, p_start_date = start_date,
                                            p_end_date = end_date, p_fiscal_year = year,
                                            p_quarter = None,
                                            p_half = Some (if month' \<le> 6 then 1 else 2),
                                            original_label = label\<rparr>))))
          | _ \<Rightarrow> parse_half_year patterns label))"

definition parse_period_label :: "string \<Rightarrow> error + period option" where
  "parse_period_label label =
     (let label_clean = strip label
      in case parse_fiscal_year FY_PATTERNS label_clean of
           Inl e \<Rightarrow> Inl e
         | Inr (Some fy_result) \<Rightarrow> Inr (Some fy_result)
         | Inr None \<Rightarrow>
            (case parse_quarter QUARTER_PATTERNS label_clean of
               Inl e \<Rightarrow> Inl e
             | Inr (Some quarter_result) \<Rightarrow> Inr (Some quarter_result)
             | Inr None \<Rightarrow> parse_half_year HALF_YEAR_PATTERNS label_clean))"

definition normalize_period_label :: "string \<Rightarrow> error + string" where
  "normalize_period_label label =
     (case parse_period_label label of
        Inl e \<Rightarrow> Inl e
      | Inr None \<Rightarrow> Inr label
      | Inr (Some parsed) \<Rightarrow>
         (case period_type parsed of
            FISCAL_YEAR \<Rightarrow> Inr (''FY'' @ str_int (p_fiscal_year parsed))
          | QUARTER \<Rightarrow>
             (case p_quarter parsed of
                None \<Rightarrow> Inl KeyError
              | Some q \<Rightarrow> Inr (''Q'' @ str_int q @ ''-'' @ str_int (p_fiscal_year parsed)))
          | HALF_YEAR \<Rightarrow>
             (case p_half parsed of
                None \<Rightarrow> Inl KeyError
              | Some h \<Rightarrow> Inr (''H'' @ str_int h @ ''-'' @ str_int (p_fiscal_year parsed)))))"

text \<open>Three labels and what the parser makes of them.\<close>

definition fy_2022_23 :: period where
  "fy_2022_23 =
     \<lparr>period_type = FISCAL_YEAR, p_start_date = \<lparr>year = 2022, month = 1, day = 1\<rparr>,
      p_end_date = \<lparr>year = 2023, month = 12, day = 31\<rparr>, p_fiscal_year = 2023,
      p_quarter = None, p_half = None, original_label = ''2022/23''\<rparr>"

definition q1_2023 :: period where
  "q1_2023 =
     \<lparr>period_type = QUARTER, p_start_date = \<lparr>year = 2023, month = 1, day = 1\<rparr>,
      p_end_date = \<lparr>year = 2023, month = 3, day = 31\<rparr>, p_fiscal_year = 2023,
      p_quarter = Some 1, p_half = None, original_label = ''Q1 2023''\<rparr>"

definition h2_2023 :: period where
  "h2_2023 =
     \<lparr>period_type = HALF_YEAR, p_start_date = \<lparr>year = 2023, month = 7, day = 1\<rparr>,
      p_end_date = \<lparr>year = 2023, month = 12, day = 31\<rparr>, p_fiscal_year = 2023,
      p_quarter = None, p_half = Some 2, original_label = ''H2 2023''\<rparr>"

section \<open>Verified properties\<close>

subsection \<open>Section locator\<close>

lemma merge_loop_invariant:
  "sorted (map start_page (merged @ current # rest)) \<Longrightarrow>
   successively (\<lambda>a b. s_section_type a = s_section_type b \<longrightarrow> end_page a + 1 < start_page b)
     (merged @ [current]) \<Longrightarrow>
   sorted (map start_page (merge_loop current rest merged)) \<and>
   successively (\<lambda>a b. s_section_type a = s_section_type b \<longrightarrow> end_page a + 1 < start_page b)
     (merge_loop current rest merged)"
proof (induction current rest merged rule: merge_loop.induct)
  case (1 current merged)
  then show ?case by simp
next
  case (2 current next_section rest merged)
  show ?case
  proof (cases "s_section_type next_section = s_section_type current \<and>
         start_page next_section \<le> end_page current + 1")
    case True
    let ?c = "\<lparr>section_id = section_id current,
              s_section_type = s_section_type current,
              section_name = section_name current,
              start_page = start_page current,
              end_page = max (end_page current) (end_page next_section),
              s_confidence_score =
                max (s_confidence_score current) (s_confidence_score next_section),
              detection_method = detection_method current\<rparr>"
    have s: "sorted (map start_page (merged @ ?c # rest))"
      using "2.prems"(1) by (auto simp: sorted_append)
    have g: "successively (\<lambda>a b. s_section_type a = s_section_type b \<longrightarrow> end_page a + 1 < start_page b)
               (merged @ [?c])"
      using "2.prems"(2) by (cases merged rule: rev_cases) (auto simp: successively_append_iff)
    have eq: "merge_loop current (next_section # rest) merged = merge_loop ?c rest merged"
      using True by simp
    show ?thesis unfolding eq by (rule "2.IH"(1) [OF True s g])
  next
    case False
    have s: "sorted (map start_page ((merged @ [current]) @ next_section # rest))"
      using "2.prems"(1) by simp
    have g: "successively (\<lambda>a b. s_section_type a = s_section_type b \<longrightarrow> end_page a + 1 < start_page b)
               ((merged @ [current]) @ [next_section])"
      using "2.prems"(2) False by (auto simp: successively_append_iff)
    have eq: "merge_loop current (next_section # rest) merged
                = merge_loop next_section rest (merged @ [current])"
      using False by auto
    show ?thesis unfolding eq by (rule "2.IH"(2) [OF False s g])
  qed
qed


text \<open>
  Claim C8, at three headers on page 1 of a five-page document (\<^verbatim>\<open>income_statement\<close>,
  \<^verbatim>\<open>notes\<close>, \<^verbatim>\<open>income_statement\<close>).  The regex stage gives them the ranges \<open>1-1\<close>, \<open>1-1\<close>
  and \<open>1-5\<close>.  \<^verbatim>\<open>_merge_sections\<close>, whose docstring is "Merge overlapping or duplicate
  sections", compares a section only with the one before it in the sorted list, so it keeps
  all three: the output has two \<^verbatim>\<open>income_statement\<close> sections whose ranges share page 1,
  where the claim requires sections of one type not to overlap.
\<close>

theorem merge_sections_same_page_overlap:
  "merge_sections (section_boundaries same_page_headers 5) =
     [mk_section ''income_statement'' 1 1, mk_section ''notes'' 1 1,
      mk_section ''income_statement'' 1 5] \<and>
   ranges_overlap (mk_section ''income_statement'' 1 1) (mk_section ''income_statement'' 1 5)"
  by (simp add: merge_sections_def same_page_headers_def mk_section_def ranges_overlap_def)

text \<open>
  What the merge does guarantee: its output is sorted by \<open>start_page\<close>, and two neighbouring
  output sections of the same type neither overlap nor touch (the later one starts more than
  one page after the earlier one ends).
\<close>

lemma merge_sections_sorted_adjacent:
  "sorted (map start_page (merge_sections secs)) \<and>
   (\<forall>i. Suc i < length (merge_sections secs) \<longrightarrow>
      s_section_type (merge_sections secs ! i) = s_section_type (merge_sections secs ! Suc i) \<longrightarrow>
      end_page (merge_sections secs ! i) + 1 < start_page (merge_sections secs ! Suc i))"
proof (cases "sort_key start_page secs")
  case Nil
  then show ?thesis by (simp add: merge_sections_def)
next
  case (Cons current rest)
  have "sorted (map start_page (sort_key start_page secs))"
    by (rule sorted_sort_key)
  then have s: "sorted (map start_page ([] @ current # rest))"
    using Cons by simp
  have g: "successively (\<lambda>a b. s_section_type a = s_section_type b \<longrightarrow> end_page a + 1 < start_page b)
             ([] @ [current])"
    by simp
  have m: "merge_sections secs = merge_loop current rest []"
    using Cons by (simp add: merge_sections_def)
  from merge_loop_invariant [OF s g] show ?thesis
    unfolding m by (simp add: successively_conv_nth)
qed

lemma merge_sections_sorted_adjacent_example:
  "map start_page (merge_sections
      [mk_section ''notes'' 7 8, mk_section ''income_statement'' 1 3,
       mk_section ''income_statement'' 4 5]) = [1, 7] \<and>
   map end_page (merge_sections
      [mk_section ''notes'' 7 8, mk_section ''income_statement'' 1 3,
       mk_section ''income_statement'' 4 5]) = [5, 8]"
  using merge_sections_sorted_adjacent
    [of "[mk_section ''notes'' 7 8, mk_section ''income_statement'' 1 3,
       mk_section ''income_statement'' 4 5]"]
  by (simp add: merge_sections_def mk_section_def)

subsection \<open>Blockification service\<close>

lemma tables_similar_iff:
  "tables_similar a b \<longleftrightarrow>
     page_number a = page_number b \<and> \<bar>row_count a - row_count b\<bar> \<le> 2 \<and>
     \<bar>col_count a - col_count b\<bar> \<le> 1 \<and> first_cell a \<noteq> [] \<and> first_cell a = first_cell b"
  by (auto simp: tables_similar_def row_count_def col_count_def first_cell_def Let_def
      split: list.splits)

lemma tables_similar_sym: "tables_similar a b = tables_similar b a"
  unfolding tables_similar_iff by (auto simp: abs_minus_commute)


lemma add_camelot_invariant:
  assumes "distinct (map fst tbp)"
    and "\<forall>p ts. map_of tbp p = Some ts \<longrightarrow>
           (\<forall>t \<in> set ts. page_number t = p) \<and>
           sorted_wrt (\<lambda>a b. \<not> tables_similar a b) ts \<and>
           (\<forall>e \<in> set ts. \<forall>t \<in> set cam. \<not> tables_similar e t)"
    and "sorted_wrt (\<lambda>a b. \<not> tables_similar a b) cam"
  shows "distinct (map fst (add_camelot tbp cam)) \<and>
         (\<forall>p ts. map_of (add_camelot tbp cam) p = Some ts \<longrightarrow>
            (\<forall>t \<in> set ts. page_number t = p) \<and>
            sorted_wrt (\<lambda>a b. \<not> tables_similar a b) ts)"
  using assms
proof (induction cam arbitrary: tbp)
  case Nil
  then show ?case by simp
next
  case (Cons t cam)
  let ?page = "page_number t"
  let ?existing = "case map_of tbp ?page of None \<Rightarrow> [] | Some ts \<Rightarrow> ts"
  let ?tbp = "AList.update ?page (?existing @ [t]) tbp"
  have ex: "(\<forall>u \<in> set ?existing. page_number u = ?page) \<and>
            sorted_wrt (\<lambda>a b. \<not> tables_similar a b) ?existing \<and>
            (\<forall>e \<in> set ?existing. \<forall>u \<in> set (t # cam). \<not> tables_similar e u)"
    using Cons.prems(2) by (cases "map_of tbp ?page") auto
  have d: "distinct (map fst ?tbp)"
    using Cons.prems(1) by (rule distinct_update)
  have new: "(\<forall>u \<in> set (?existing @ [t]). page_number u = ?page) \<and>
             sorted_wrt (\<lambda>a b. \<not> tables_similar a b) (?existing @ [t]) \<and>
             (\<forall>e \<in> set (?existing @ [t]). \<forall>u \<in> set cam. \<not> tables_similar e u)"
    using ex Cons.prems(3) by (auto simp: sorted_wrt_append)
  have i: "\<forall>p ts. map_of ?tbp p = Some ts \<longrightarrow>
           (\<forall>t \<in> set ts. page_number t = p) \<and>
           sorted_wrt (\<lambda>a b. \<not> tables_similar a b) ts \<and>
           (\<forall>e \<in> set ts. \<forall>t \<in> set cam. \<not> tables_similar e t)"
  proof (intro allI impI)
    fix p ts
    assume m: "map_of ?tbp p = Some ts"
    show "(\<forall>t \<in> set ts. page_number t = p) \<and>
           sorted_wrt (\<lambda>a b. \<not> tables_similar a b) ts \<and>
           (\<forall>e \<in> set ts. \<forall>t \<in> set cam. \<not> tables_similar e t)"
    proof (cases "p = ?page")
      case True
      with m have "ts = ?existing @ [t]" by (simp add: update_conv')
      with new True show ?thesis by blast
    next
      case False
      with m have "map_of tbp p = Some ts" by (simp add: update_conv')
      with Cons.prems(2) show ?thesis by auto
    qed
  qed
  have s: "sorted_wrt (\<lambda>a b. \<not> tables_similar a b) cam"
    using Cons.prems(3) by simp
  have eq: "add_camelot tbp (t # cam) = add_camelot ?tbp cam"
    by (simp add: Let_def)
  show ?case unfolding eq by (rule Cons.IH [OF d i s])
qed

lemma add_pdfplumber_invariant:
  assumes "distinct (map fst tbp)"
    and "\<forall>p ts. map_of tbp p = Some ts \<longrightarrow>
           (\<forall>t \<in> set ts. page_number t = p) \<and>
           sorted_wrt (\<lambda>a b. \<not> tables_similar a b) ts"
  shows "distinct (map fst (add_pdfplumber tbp pl)) \<and>
         (\<forall>p ts. map_of (add_pdfplumber tbp pl) p = Some ts \<longrightarrow>
            (\<forall>t \<in> set ts. page_number t = p) \<and>
            sorted_wrt (\<lambda>a b. \<not> tables_similar a b) ts)"
  using assms
proof (induction pl arbitrary: tbp)
  case Nil
  then show ?case by simp
next
  case (Cons t pl)
  let ?page = "page_number t"
  show ?case
  proof (cases "map_of tbp ?page")
    case None
    let ?tbp = "AList.update ?page [t] tbp"
    have d: "distinct (map fst ?tbp)"
      using Cons.prems(1) by (rule distinct_update)
    have i: "\<forall>p ts. map_of ?tbp p = Some ts \<longrightarrow>
           (\<forall>t \<in> set ts. page_number t = p) \<and>
           sorted_wrt (\<lambda>a b. \<not> tables_similar a b) ts"
      using Cons.prems(2) by (auto simp: update_conv')
    have eq: "add_pdfplumber tbp (t # pl) = add_pdfplumber ?tbp pl"
      using None by (simp add: Let_def)
    show ?thesis unfolding eq by (rule Cons.IH [OF d i])
  next
    case (Some existing)
    show ?thesis
    proof (cases "list_ex (\<lambda>e. tables_similar t e) existing")
      case True
      have eq: "add_pdfplumber tbp (t # pl) = add_pdfplumber tbp pl"
        using Some True by (simp add: Let_def)
      show ?thesis unfolding eq by (rule Cons.IH [OF Cons.prems])
    next
      case False
      let ?tbp = "AList.update ?page (existing @ [t]) tbp"
      have d: "distinct (map fst ?tbp)"
        using Cons.prems(1) by (rule distinct_update)
      have ex: "(\<forall>u \<in> set existing. page_number u = ?page) \<and>
                sorted_wrt (\<lambda>a b. \<not> tables_similar a b) existing"
        using Cons.prems(2) Some by blast
      have dis: "\<forall>e \<in> set existing. \<not> tables_similar e t"
        using False by (auto simp: list_ex_iff tables_similar_sym [of _ t])
      have new: "(\<forall>u \<in> set (existing @ [t]). page_number u = ?page) \<and>
                 sorted_wrt (\<lambda>a b. \<not> tables_similar a b) (existing @ [t])"
        using ex dis by (auto simp: sorted_wrt_append)
      have i: "\<forall>p ts. map_of ?tbp p = Some ts \<longrightarrow>
           (\<forall>t \<in> set ts. page_number t = p) \<and>
           sorted_wrt (\<lambda>a b. \<not> tables_similar a b) ts"
      proof (intro allI impI)
        fix p ts
        assume m: "map_of ?tbp p = Some ts"
        show "(\<forall>t \<in> set ts. page_number t = p) \<and>
              sorted_wrt (\<lambda>a b. \<not> tables_similar a b) ts"
        proof (cases "p = ?page")
          case True
          with m have "ts = existing @ [t]" by (simp add: update_conv')
          with new True show ?thesis by blast
        next
          case False
          with m have "map_of tbp p = Some ts" by (simp add: update_conv')
          with Cons.prems(2) show ?thesis by auto
        qed
      qed
      have eq: "add_pdfplumber tbp (t # pl) = add_pdfplumber ?tbp pl"
        using Some False by (simp add: Let_def)
      show ?thesis unfolding eq by (rule Cons.IH [OF d i])
    qed
  qed
qed

lemma flatten_pages_dissimilar:
  assumes "distinct pages"
    and "\<forall>p \<in> set pages. (\<forall>t \<in> set (f p). page_number t = p) \<and>
           sorted_wrt (\<lambda>a b. \<not> tables_similar a b) (f p)"
  shows "sorted_wrt (\<lambda>a b. \<not> tables_similar a b) (concat (map f pages))"
  using assms
proof (induction pages)
  case Nil
  then show ?case by simp
next
  case (Cons p pages)
  have rest: "sorted_wrt (\<lambda>a b. \<not> tables_similar a b) (concat (map f pages))"
    using Cons by simp
  have cross: "\<forall>x \<in> set (f p). \<forall>y \<in> set (concat (map f pages)). \<not> tables_similar x y"
  proof (intro ballI)
    fix x y
    assume x: "x \<in> set (f p)" and y: "y \<in> set (concat (map f pages))"
    from y obtain q where q: "q \<in> set pages" "y \<in> set (f q)" by auto
    from Cons.prems x have "page_number x = p" by simp
    moreover from Cons.prems q have "page_number y = q" by simp
    moreover from Cons.prems(1) q(1) have "p \<noteq> q" by auto
    ultimately show "\<not> tables_similar x y" by (simp add: tables_similar_iff)
  qed
  from rest cross Cons.prems(2) show ?case by (simp add: sorted_wrt_append)
qed

lemma merge_tables_sorted_wrt:
  assumes "sorted_wrt (\<lambda>a b. \<not> tables_similar a b) cam"
  shows "sorted_wrt (\<lambda>a b. \<not> tables_similar a b) (merge_tables cam pl)"
proof -
  have c: "distinct (map fst (add_camelot [] cam)) \<and>
         (\<forall>p ts. map_of (add_camelot [] cam) p = Some ts \<longrightarrow>
            (\<forall>t \<in> set ts. page_number t = p) \<and>
            sorted_wrt (\<lambda>a b. \<not> tables_similar a b) ts)"
    by (rule add_camelot_invariant) (use assms in simp_all)
  let ?tbp = "add_pdfplumber (add_camelot [] cam) pl"
  have p: "distinct (map fst ?tbp) \<and>
         (\<forall>p ts. map_of ?tbp p = Some ts \<longrightarrow>
            (\<forall>t \<in> set ts. page_number t = p) \<and>
            sorted_wrt (\<lambda>a b. \<not> tables_similar a b) ts)"
    using c by (intro add_pdfplumber_invariant) blast+
  have "sorted_wrt (\<lambda>a b. \<not> tables_similar a b)
          (concat (map (\<lambda>page. case map_of ?tbp page of None \<Rightarrow> [] | Some ts \<Rightarrow> ts)
                    (sort (map fst ?tbp))))"
  proof (rule flatten_pages_dissimilar)
    show "distinct (sort (map fst ?tbp))" using p by simp
    show "\<forall>pa \<in> set (sort (map fst ?tbp)).
            (\<forall>t \<in> set (case map_of ?tbp pa of None \<Rightarrow> [] | Some ts \<Rightarrow> ts). page_number t = pa) \<and>
            sorted_wrt (\<lambda>a b. \<not> tables_similar a b)
              (case map_of ?tbp pa of None \<Rightarrow> [] | Some ts \<Rightarrow> ts)"
      using p by (auto split: option.splits)
  qed
  then show ?thesis by (simp add: merge_tables_def Let_def)
qed


text \<open>
  Camelot's own tables are filed without any comparison: two Camelot tables of one page
  with the same shape and first cell both reach the merged output.
\<close>

theorem merge_tables_counterexample:
  "merge_tables camelot_twins [] = camelot_twins \<and>
   page_number (camelot_twins ! 0) = page_number (camelot_twins ! 1) \<and>
   \<bar>row_count (camelot_twins ! 0) - row_count (camelot_twins ! 1)\<bar> \<le> 2 \<and>
   \<bar>col_count (camelot_twins ! 0) - col_count (camelot_twins ! 1)\<bar> \<le> 1 \<and>
   first_cell (camelot_twins ! 0) \<noteq> [] \<and>
   first_cell (camelot_twins ! 0) = first_cell (camelot_twins ! 1)"
  by (simp add: merge_tables_def camelot_twins_def mk_table_def row_count_def col_count_def
      first_cell_def strip_def is_space_def)

text \<open>
  C7 (as amended).  If no two of Camelot's tables are similar, then for every two tables
  of the merged output that lie on the same page, their row counts differ by more than 2,
  or their column counts differ by more than 1, or the first cells of their first data
  rows are not both nonempty and equal.
\<close>

theorem merge_tables_dedup_closure:
  assumes "\<forall>i j. i < j \<and> j < length cam \<longrightarrow> \<not> tables_similar (cam ! i) (cam ! j)"
  shows "\<forall>i j. i < j \<and> j < length (merge_tables cam pl) \<and>
           page_number (merge_tables cam pl ! i) = page_number (merge_tables cam pl ! j) \<longrightarrow>
           \<bar>row_count (merge_tables cam pl ! i) - row_count (merge_tables cam pl ! j)\<bar> > 2 \<or>
           \<bar>col_count (merge_tables cam pl ! i) - col_count (merge_tables cam pl ! j)\<bar> > 1 \<or>
           \<not> (first_cell (merge_tables cam pl ! i) \<noteq> [] \<and>
              first_cell (merge_tables cam pl ! j) \<noteq> [] \<and>
              first_cell (merge_tables cam pl ! i) = first_cell (merge_tables cam pl ! j))"
proof -
  have "sorted_wrt (\<lambda>a b. \<not> tables_similar a b) cam"
    using assms by (simp add: sorted_wrt_iff_nth_less)
  then have "sorted_wrt (\<lambda>a b. \<not> tables_similar a b) (merge_tables cam pl)"
    by (rule merge_tables_sorted_wrt)
  then have "\<forall>i j. i < j \<and> j < length (merge_tables cam pl) \<longrightarrow>
               \<not> tables_similar (merge_tables cam pl ! i) (merge_tables cam pl ! j)"
    by (simp add: sorted_wrt_iff_nth_less)
  then show ?thesis
    unfolding tables_similar_iff by (metis not_le)
qed

theorem merge_tables_dedup_closure_witness:
  "\<not> tables_similar (camelot_pair ! 0) (camelot_pair ! 1) \<and>
   map table_id (merge_tables camelot_pair pdfplumber_three)
     = [''plumber_3'', ''lattice_1'', ''lattice_2'', ''plumber_2''] \<and>
   first_cell (merge_tables camelot_pair pdfplumber_three ! 1)
     \<noteq> first_cell (merge_tables camelot_pair pdfplumber_three ! 3)"
proof -
  have d: "\<not> tables_similar (camelot_pair ! 0) (camelot_pair ! 1)"
    by (simp add: tables_similar_def camelot_pair_def mk_table_def strip_def is_space_def)
  have h: "\<forall>i j. i < j \<and> j < length camelot_pair \<longrightarrow>
             \<not> tables_similar (camelot_pair ! i) (camelot_pair ! j)"
  proof (intro allI impI)
    fix i j :: nat
    assume "i < j \<and> j < length camelot_pair"
    then have "i = 0 \<and> j = 1" by (auto simp: camelot_pair_def)
    with d show "\<not> tables_similar (camelot_pair ! i) (camelot_pair ! j)" by simp
  qed
  have m: "map table_id (merge_tables camelot_pair pdfplumber_three)
             = [''plumber_3'', ''lattice_1'', ''lattice_2'', ''plumber_2'']"
    by (simp add: merge_tables_def camelot_pair_def pdfplumber_three_def mk_table_def
        tables_similar_def strip_def is_space_def)
  have len: "length (map table_id (merge_tables camelot_pair pdfplumber_three)) = 4"
    unfolding m by simp
  have pg: "page_number (merge_tables camelot_pair pdfplumber_three ! 1)
              = page_number (merge_tables camelot_pair pdfplumber_three ! 3)"
    and fc: "first_cell (merge_tables camelot_pair pdfplumber_three ! 1) \<noteq> []"
    and rc: "\<bar>row_count (merge_tables camelot_pair pdfplumber_three ! 1)
      - row_count (merge_tables camelot_pair pdfplumber_three ! 3)\<bar> \<le> 2"
    and cc: "\<bar>col_count (merge_tables camelot_pair pdfplumber_three ! 1)
      - col_count (merge_tables camelot_pair pdfplumber_three ! 3)\<bar> \<le> 1"
    by (simp_all add: merge_tables_def camelot_pair_def pdfplumber_three_def mk_table_def
        tables_similar_def strip_def is_space_def row_count_def col_count_def first_cell_def)
  from len have l: "(1::nat) < 3 \<and> 3 < length (merge_tables camelot_pair pdfplumber_three)"
    by simp
  from merge_tables_dedup_closure [OF h, of pdfplumber_three] l pg
  have "\<bar>row_count (merge_tables camelot_pair pdfplumber_three ! 1)
           - row_count (merge_tables camelot_pair pdfplumber_three ! 3)\<bar> > 2 \<or>
        \<bar>col_count (merge_tables camelot_pair pdfplumber_three ! 1)
           - col_count (merge_tables camelot_pair pdfplumber_three ! 3)\<bar> > 1 \<or>
        \<not> (first_cell (merge_tables camelot_pair pdfplumber_three ! 1) \<noteq> [] \<and>
           first_cell (merge_tables camelot_pair pdfplumber_three ! 3) \<noteq> [] \<and>
           first_cell (merge_tables camelot_pair pdfplumber_three ! 1)
             = first_cell (merge_tables camelot_pair pdfplumber_three ! 3))"
    by blast
  with rc cc fc have "first_cell (merge_tables camelot_pair pdfplumber_three ! 1)
     \<noteq> first_cell (merge_tables camelot_pair pdfplumber_three ! 3)"
    by auto
  with d m show ?thesis by blast
qed

subsection \<open>Decimal strings of years\<close>

declare str_nat.simps [simp del]

lemma of_char_digit_char: "n < 10 \<Longrightarrow> of_char (digit_char n) = (48 + n :: nat)"
proof -
  assume "n < 10"
  then have "n \<in> {0, 1, 2, 3, 4, 5, 6, 7, 8, 9}" by auto
  then show ?thesis by (auto simp: digit_char_def)
qed

lemma is_digit_digit_char: "n < 10 \<Longrightarrow> is_digit (digit_char n)"
proof -
  assume "n < 10"
  then have "n \<in> {0, 1, 2, 3, 4, 5, 6, 7, 8, 9}" by auto
  then show ?thesis by (auto simp: digit_char_def is_digit_def)
qed

lemma is_digit_range: "is_digit c \<Longrightarrow> 48 \<le> (of_char c :: nat) \<and> (of_char c :: nat) \<le> 57"
  by (auto simp: is_digit_def)

lemma digit_val_less_10: "is_digit c \<Longrightarrow> digit_val c < 10"
  using is_digit_range [of c] unfolding digit_val_def by linarith

lemma digit_val_digit_char: "n < 10 \<Longrightarrow> digit_val (digit_char n) = n"
  by (simp add: digit_val_def of_char_digit_char)




lemma digits_val_snoc: "digits_val (cs @ [c]) = 10 * digits_val cs + digit_val c"
  by (induction cs) (simp_all add: algebra_simps)


lemma digits_val_str_nat: "digits_val (str_nat n) = n"
proof (induction n rule: str_nat.induct)
  case (1 n)
  show ?case
  proof (cases "n < 10")
    case True
    then show ?thesis by (subst str_nat.simps) (simp add: digit_val_digit_char)
  next
    case False
    with 1 show ?thesis
      by (subst str_nat.simps) (simp add: digits_val_snoc digit_val_digit_char)
  qed
qed


lemma str_nat_four_digits:
  assumes "1000 \<le> n" "n \<le> 9999"
  shows "str_nat n = [digit_char (n div 1000), digit_char (n div 100 mod 10),
                      digit_char (n div 10 mod 10), digit_char (n mod 10)]"
proof -
  have a: "str_nat (n div 1000) = [digit_char (n div 1000)]"
    using assms by (subst str_nat.simps) simp
  have e1: "n div 100 div 10 = n div 1000" and e2: "n div 10 div 10 = n div 100"
    by (simp_all add: div_mult2_eq [symmetric])
  have b: "str_nat (n div 100) = str_nat (n div 1000) @ [digit_char (n div 100 mod 10)]"
    using assms by (subst str_nat.simps) (simp add: e1)
  have c: "str_nat (n div 10) = str_nat (n div 100) @ [digit_char (n div 10 mod 10)]"
    using assms by (subst str_nat.simps) (simp add: e2)
  have d: "str_nat n = str_nat (n div 10) @ [digit_char (n mod 10)]"
    using assms by (subst str_nat.simps) simp
  show ?thesis by (simp add: a b c d)
qed


lemma str_int_year_inj:
  assumes "0 \<le> a" "0 \<le> b" "str_int a = str_int b"
  shows "a = b"
proof -
  from assms have "digits_val (str_nat (nat a)) = digits_val (str_nat (nat b))"
    by (simp add: str_int_def)
  with assms show ?thesis by (simp add: digits_val_str_nat)
qed

subsection \<open>Derived metrics\<close>













lemma str_int_examples:
  "str_int 2022 = ''2022''" "str_int 2023 = ''2023''" "str_int 999 = ''999''"
  "str_int 1000 = ''1000''" "str_int 1 = ''1''" "str_int 5 = ''5''"
  by (simp_all add: str_int_def str_nat.simps digit_char_def)




text \<open>
  The period keys are sorted as strings: below the year 1000 this is not the order of the
  years, and the growth is computed from the year 1000 back to the year 999.
\<close>

lemma compute_growth_rates_three_digit_year:
  "\<exists>md out ws. create_metrics_dict [] revenue_early_years = Inr md \<and>
     compute_growth_rates default_config md = Inr (out, ws) \<and>
     map (\<lambda>g. (m_period_end_date g, m_value g)) out
       = [(Some \<lparr>year = 999, month = 12, day = 31\<rparr>, - (1 / 11))]"
  by (simp add: revenue_early_years_def mk_metric_def Let_def lower_def lower_char_def
      str_int_examples
      compute_growth_rates_def growth_targets_def growth_step_def dict_get_def
      calculate_growth_rate_def dec_div_def default_config_def)

subsection \<open>Period parser\<close>

lemma date_year_range: "date y m d = Inr x \<Longrightarrow> 1 \<le> y \<and> y \<le> 9999 \<and> year x = y"
  by (auto simp: date_def split: if_splits)

lemma parse_fiscal_year_Some:
  "parse_fiscal_year ps L = Inr (Some p) \<Longrightarrow>
     period_type p = FISCAL_YEAR \<and> 1 \<le> p_fiscal_year p \<and> p_fiscal_year p \<le> 9999"
proof (induction ps)
  case Nil
  then show ?case by simp
next
  case (Cons r ps)
  show ?case
  proof (cases "parse_fiscal_year ps L = Inr (Some p)")
    case True
    then show ?thesis by (rule Cons.IH)
  next
    case False
    with Cons.prems show ?thesis
      by (auto simp: Let_def dest!: date_year_range
          split: option.splits prod.splits list.splits sum.splits if_splits)
  qed
qed


lemma parse_quarter_Some:
  "parse_quarter ps L = Inr (Some p) \<Longrightarrow> period_type p = QUARTER \<and> p_quarter p \<noteq> None"
proof (induction ps)
  case Nil
  then show ?case by simp
next
  case (Cons r ps)
  show ?case
  proof (cases "parse_quarter ps L = Inr (Some p)")
    case True
    then show ?thesis by (rule Cons.IH)
  next
    case False
    with Cons.prems show ?thesis
      by (auto simp: Let_def
          split: option.splits prod.splits list.splits sum.splits if_splits)
  qed
qed

lemma parse_half_year_Some:
  "parse_half_year ps L = Inr (Some p) \<Longrightarrow> period_type p = HALF_YEAR \<and> p_half p \<noteq> None"
proof (induction ps)
  case Nil
  then show ?case by simp
next
  case (Cons r ps)
  show ?case
  proof (cases "parse_half_year ps L = Inr (Some p)")
    case True
    then show ?thesis by (rule Cons.IH)
  next
    case False
    with Cons.prems show ?thesis
      by (auto simp: Let_def
          split: option.splits prod.splits list.splits sum.splits if_splits)
  qed
qed

lemma parse_period_label_cases:
  assumes "parse_period_label L = Inr (Some p)"
  shows "(period_type p = FISCAL_YEAR \<and> 1 \<le> p_fiscal_year p \<and> p_fiscal_year p \<le> 9999) \<or>
         (period_type p = QUARTER \<and> p_quarter p \<noteq> None) \<or>
         (period_type p = HALF_YEAR \<and> p_half p \<noteq> None)"
proof (cases "parse_fiscal_year FY_PATTERNS (strip L)")
  case (Inl e)
  with assms show ?thesis by (simp add: parse_period_label_def)
next
  case fy: (Inr a)
  show ?thesis
  proof (cases a)
    case (Some x)
    with fy assms have "x = p" by (simp add: parse_period_label_def)
    with fy Some parse_fiscal_year_Some [of FY_PATTERNS "strip L" p] show ?thesis by simp
  next
    case None
    show ?thesis
    proof (cases "parse_quarter QUARTER_PATTERNS (strip L)")
      case (Inl e)
      with fy None assms show ?thesis by (simp add: parse_period_label_def)
    next
      case q: (Inr b)
      show ?thesis
      proof (cases b)
        case (Some x)
        with fy None q assms have "x = p" by (simp add: parse_period_label_def)
        with q Some parse_quarter_Some [of QUARTER_PATTERNS "strip L" p] show ?thesis by simp
      next
        case qn: None
        with fy None q assms have "parse_half_year HALF_YEAR_PATTERNS (strip L) = Inr (Some p)"
          by (simp add: parse_period_label_def)
        with parse_half_year_Some show ?thesis by blast
      qed
    qed
  qed
qed

lemma digit_not_space: "is_digit c \<Longrightarrow> \<not> is_space c"
  by (simp add: is_digit_def, elim disjE; simp add: is_space_def)

lemma digit_in_digit_cls: "is_digit c \<Longrightarrow> in_class ic digit_cls c"
  by (simp add: is_digit_def digit_cls_def in_chars_def)

lemma digit_not_in_space_cls: "is_digit c \<Longrightarrow> \<not> in_class ic space_cls c"
  by (simp add: is_digit_def, elim disjE;
      simp add: space_cls_def in_chars_def lower_char_def upper_char_def)

lemma digit_not_colon_dash: "is_digit c \<Longrightarrow> \<not> in_chars ic '':-'' c"
  by (simp add: is_digit_def, elim disjE;
      simp add: in_chars_def lower_char_def upper_char_def)

lemma strip_id:
  assumes "s \<noteq> []" "\<not> is_space (hd s)" "\<not> is_space (last s)"
  shows "strip s = s"
proof -
  have a: "dropWhile is_space s = s"
    using assms by (cases s) simp_all
  have "rev s \<noteq> []" "\<not> is_space (hd (rev s))"
    using assms by (simp_all add: hd_rev)
  then have "dropWhile is_space (rev s) = rev s"
    by (cases "rev s") simp_all
  with a show ?thesis by (simp add: strip_def)
qed

lemma strip_FY_digits:
  assumes "is_digit d"
  shows "strip (''FY'' @ [a, b, c, d]) = ''FY'' @ [a, b, c, d]"
proof (rule strip_id)
  show "\<not> is_space (hd (''FY'' @ [a, b, c, d]))" by (simp add: is_space_def)
  show "\<not> is_space (last (''FY'' @ [a, b, c, d]))" using assms by (simp add: digit_not_space)
qed simp

lemma char_eq_FY:
  "char_eq True CHR ''F'' CHR ''F''" "char_eq True CHR ''Y'' CHR ''Y''"
  "\<not> char_eq True CHR ''i'' CHR ''Y''"
  by (simp_all add: char_eq_def lower_char_def)

lemma search_FY_digits:
  assumes "is_digit a" "is_digit b" "is_digit c" "is_digit d"
  shows "re_search True (FY_PATTERNS ! 0) (''FY'' @ [a, b, c, d])
           = Some ([], ''FY'' @ [a, b, c, d], [[a, b, c, d]])"
  using assms
  by (simp add: FY_PATTERNS_def re_search_def seq_def sp0_def sp1_def Let_def
      digit_in_digit_cls digit_not_in_space_cls digit_not_colon_dash char_eq_FY)

lemma four_digit_year:
  assumes "1000 \<le> y" "y \<le> 9999"
  obtains a b c d where "str_int y = [a, b, c, d]"
    "is_digit a" "is_digit b" "is_digit c" "is_digit d" "int_of_digits [a, b, c, d] = y"
proof -
  let ?n = "nat y"
  have n: "1000 \<le> ?n" "?n \<le> 9999" using assms by simp_all
  have s: "str_int y = str_nat ?n" using assms by (simp add: str_int_def)
  have f: "str_nat ?n = [digit_char (?n div 1000), digit_char (?n div 100 mod 10),
                         digit_char (?n div 10 mod 10), digit_char (?n mod 10)]"
    using n by (rule str_nat_four_digits)
  have "?n div 1000 < 10" using n by simp
  then have d: "is_digit (digit_char (?n div 1000))" "is_digit (digit_char (?n div 100 mod 10))"
    "is_digit (digit_char (?n div 10 mod 10))" "is_digit (digit_char (?n mod 10))"
    by (simp_all add: is_digit_digit_char)
  have "digits_val (str_nat ?n) = ?n" by (rule digits_val_str_nat)
  then have v: "int_of_digits [digit_char (?n div 1000), digit_char (?n div 100 mod 10),
                   digit_char (?n div 10 mod 10), digit_char (?n mod 10)] = y"
    using assms unfolding f int_of_digits_def by simp
  from s f d v show ?thesis using that by simp
qed

lemma parse_FY_year:
  assumes "1000 \<le> y" "y \<le> 9999"
  shows "parse_period_label (''FY'' @ str_int y) =
           Inr (Some \<lparr>period_type = FISCAL_YEAR,
                      p_start_date = \<lparr>year = y - 1, month = 1, day = 1\<rparr>,
                      p_end_date = \<lparr>year = y, month = 12, day = 31\<rparr>,
                      p_fiscal_year = y, p_quarter = None, p_half = None,
                      original_label = ''FY'' @ str_int y\<rparr>)"
proof -
  from assms obtain a b c d where s: "str_int y = [a, b, c, d]"
    and dg: "is_digit a" "is_digit b" "is_digit c" "is_digit d"
    and v: "int_of_digits [a, b, c, d] = y"
    by (rule four_digit_year)
  let ?L = "''FY'' @ [a, b, c, d]"
  have st: "strip ?L = ?L" using dg(4) by (rule strip_FY_digits)
  have ps: "FY_PATTERNS = (FY_PATTERNS ! 0) # tl FY_PATTERNS"
    by (simp add: FY_PATTERNS_def)
  have m: "re_search True (FY_PATTERNS ! 0) ?L = Some ([], ?L, [[a, b, c, d]])"
    using dg by (rule search_FY_digits)
  have d1: "date y 12 31 = Inr \<lparr>year = y, month = 12, day = 31\<rparr>"
    using assms by (simp add: date_def days_in_month_def)
  have d2: "date (y - 1) 1 1 = Inr \<lparr>year = y - 1, month = 1, day = 1\<rparr>"
    using assms by (simp add: date_def days_in_month_def)
  have "parse_fiscal_year ((FY_PATTERNS ! 0) # tl FY_PATTERNS) ?L =
          Inr (Some \<lparr>period_type = FISCAL_YEAR,
                     p_start_date = \<lparr>year = y - 1, month = 1, day = 1\<rparr>,
                     p_end_date = \<lparr>year = y, month = 12, day = 31\<rparr>,
                     p_fiscal_year = y, p_quarter = None, p_half = None,
                     original_label = ?L\<rparr>)"
    unfolding parse_fiscal_year.simps m by (simp add: v d1 d2 del: append.simps)
  then have "parse_fiscal_year FY_PATTERNS ?L =
          Inr (Some \<lparr>period_type = FISCAL_YEAR,
                     p_start_date = \<lparr>year = y - 1, month = 1, day = 1\<rparr>,
                     p_end_date = \<lparr>year = y, month = 12, day = 31\<rparr>,
                     p_fiscal_year = y, p_quarter = None, p_half = None,
                     original_label = ?L\<rparr>)"
    using ps by simp
  then show ?thesis
    unfolding s parse_period_label_def st by (simp del: append.simps)
qed

lemma normalize_forms:
  assumes "parse_period_label L = Inr (Some p)"
  shows "normalize_period_label L =
           (case period_type p of
              FISCAL_YEAR \<Rightarrow> Inr (''FY'' @ str_int (p_fiscal_year p))
            | QUARTER \<Rightarrow> Inr (''Q'' @ str_int (the (p_quarter p)) @ ''-'' @ str_int (p_fiscal_year p))
            | HALF_YEAR \<Rightarrow> Inr (''H'' @ str_int (the (p_half p)) @ ''-'' @ str_int (p_fiscal_year p)))"
  using assms parse_period_label_cases [OF assms]
  by (auto simp: normalize_period_label_def)

text \<open>Digits against the literals and classes of the patterns.\<close>

lemma lower_char_cases:
  "lower_char p = p \<or> lower_char p \<in> set ''abcdefghijklmnopqrstuvwxyz'' \<or>
   (224 :: nat) \<le> of_char (lower_char p)"
proof (cases "map_of (zip ''ABCDEFGHIJKLMNOPQRSTUVWXYZ'' ''abcdefghijklmnopqrstuvwxyz'') p")
  case None
  show ?thesis
  proof (cases "(0xC0 :: nat) \<le> of_char p \<and> of_char p \<le> (0xDE :: nat) \<and>
              of_char p \<noteq> (0xD7 :: nat)")
    case True
    then have "(of_char (char_of (of_char p + (32 :: nat))) :: nat) = of_char p + 32"
      by simp
    with True None show ?thesis by (simp add: lower_char_def)
  next
    case False
    with None show ?thesis by (simp add: lower_char_def)
  qed
next
  case (Some l)
  then have "l \<in> set ''abcdefghijklmnopqrstuvwxyz''"
    by (blast dest: map_of_SomeD set_zip_rightD)
  with Some show ?thesis by (simp add: lower_char_def)
qed

lemma lower_char_digit: "is_digit c \<Longrightarrow> lower_char c = c"
  by (simp add: is_digit_def, elim disjE; simp add: lower_char_def)

lemma lit_vs_digit:
  assumes "is_digit c" "p \<notin> set ''0123456789''"
  shows "char_eq ic p c = False"
proof -
  have "lower_char p \<noteq> c"
  proof
    assume e: "lower_char p = c"
    from assms(1) have r: "c \<notin> set ''abcdefghijklmnopqrstuvwxyz''" "(of_char c :: nat) < 224"
      by (simp add: is_digit_def, elim disjE; simp)+
    from lower_char_cases [of p] e r have "p = c" by auto
    with assms show False by (simp add: is_digit_def)
  qed
  moreover have "p \<noteq> c" using assms by (auto simp: is_digit_def)
  ultimately show ?thesis using assms(1) by (simp add: char_eq_def lower_char_digit)
qed

lemma digit_not_alpha: "is_digit c \<Longrightarrow> \<not> in_class ic alpha_cls c"
  by (simp add: is_digit_def, elim disjE;
      simp add: alpha_cls_def in_chars_def lower_char_def upper_char_def)

lemma digit_not_dash_slash: "is_digit c \<Longrightarrow> \<not> in_chars ic ''-/'' c"
  by (simp add: is_digit_def, elim disjE;
      simp add: in_chars_def lower_char_def upper_char_def)

lemma lower_char_to_letter:
  assumes "lower_char p = l" "l \<in> set ''abcdefghijklmnopqrstuvwxyz''"
  shows "p = l \<or> map_of (zip ''ABCDEFGHIJKLMNOPQRSTUVWXYZ'' ''abcdefghijklmnopqrstuvwxyz'') p = Some l"
proof (cases "map_of (zip ''ABCDEFGHIJKLMNOPQRSTUVWXYZ'' ''abcdefghijklmnopqrstuvwxyz'') p")
  case None
  show ?thesis
  proof (cases "(0xC0 :: nat) \<le> of_char p \<and> of_char p \<le> (0xDE :: nat) \<and>
              of_char p \<noteq> (0xD7 :: nat)")
    case True
    then have "(of_char (char_of (of_char p + (32 :: nat))) :: nat) = of_char p + 32"
      by simp
    with True None assms(1) have "(224 :: nat) \<le> of_char l" by (simp add: lower_char_def)
    moreover from assms(2) have "(of_char l :: nat) < 224" by (simp, elim disjE; simp)
    ultimately show ?thesis by simp
  next
    case False
    with None assms(1) show ?thesis by (simp add: lower_char_def)
  qed
next
  case (Some x)
  with assms(1) show ?thesis by (simp add: lower_char_def)
qed

lemma char_eq_dash: "char_eq True p CHR ''-'' = (p = CHR ''-'')"
proof -
  have l: "lower_char CHR ''-'' = CHR ''-''" by (simp add: lower_char_def)
  have "lower_char p = CHR ''-'' \<Longrightarrow> p = CHR ''-''"
    using lower_char_cases [of p] by auto
  then show ?thesis unfolding char_eq_def l by (auto simp: l)
qed

lemma char_eq_Q: "char_eq True p CHR ''Q'' = (p = CHR ''Q'' \<or> p = CHR ''q'')"
proof -
  have l: "lower_char CHR ''Q'' = CHR ''q''" "lower_char CHR ''q'' = CHR ''q''"
    by (simp_all add: lower_char_def)
  have "lower_char p = CHR ''q'' \<Longrightarrow> p = CHR ''Q'' \<or> p = CHR ''q''"
    by (drule lower_char_to_letter, simp, auto split: if_splits)
  then show ?thesis unfolding char_eq_def by (auto simp: l)
qed

lemma char_eq_H: "char_eq True p CHR ''H'' = (p = CHR ''H'' \<or> p = CHR ''h'')"
proof -
  have l: "lower_char CHR ''H'' = CHR ''h''" "lower_char CHR ''h'' = CHR ''h''"
    by (simp_all add: lower_char_def)
  have "lower_char p = CHR ''h'' \<Longrightarrow> p = CHR ''H'' \<or> p = CHR ''h''"
    by (drule lower_char_to_letter, simp, auto split: if_splits)
  then show ?thesis unfolding char_eq_def by (auto simp: l)
qed

lemma class_table:
  "\<not> in_class True digit_cls CHR ''Q''" "\<not> in_class True digit_cls CHR ''H''"
  "\<not> in_class True digit_cls CHR ''-''"
  "\<not> in_class True space_cls CHR ''Q''" "\<not> in_class True space_cls CHR ''H''"
  "\<not> in_class True space_cls CHR ''-''"
  "in_class True alpha_cls CHR ''Q''" "in_class True alpha_cls CHR ''H''"
  "\<not> in_class True alpha_cls CHR ''-''"
  "\<not> in_chars True '':-'' CHR ''Q''" "\<not> in_chars True '':-'' CHR ''H''"
  "in_chars True '':-'' CHR ''-''"
  "\<not> in_chars True ''-/'' CHR ''Q''" "\<not> in_chars True ''-/'' CHR ''H''"
  "in_chars True ''-/'' CHR ''-''"
  by (simp_all add: digit_cls_def space_cls_def alpha_cls_def in_chars_def lower_char_def
      upper_char_def)

lemmas sym_eval =
  re_search_def seq_def sp0_def sp1_def day_month_year_def Let_def
  digit_in_digit_cls digit_not_in_space_cls digit_not_colon_dash digit_not_alpha
  digit_not_dash_slash lit_vs_digit char_eq_dash char_eq_Q char_eq_H class_table

lemma fy_Q_label:
  assumes "is_digit q" "is_digit a" "is_digit b" "is_digit c" "is_digit d"
  shows "parse_fiscal_year FY_PATTERNS (CHR ''Q'' # q # CHR ''-'' # [a, b, c, d]) = Inr None"
  using assms by (simp add: FY_PATTERNS_def sym_eval)

lemma quarter_Q_label:
  assumes "is_digit q" "is_digit a" "is_digit b" "is_digit c" "is_digit d"
  shows "parse_quarter QUARTER_PATTERNS (CHR ''Q'' # q # CHR ''-'' # [a, b, c, d]) = Inr None"
  using assms by (simp add: QUARTER_PATTERNS_def sym_eval)

lemma half_Q_label:
  assumes "is_digit q" "is_digit a" "is_digit b" "is_digit c" "is_digit d"
  shows "parse_half_year HALF_YEAR_PATTERNS (CHR ''Q'' # q # CHR ''-'' # [a, b, c, d]) = Inr None"
  using assms by (simp add: HALF_YEAR_PATTERNS_def sym_eval)

lemma fy_H_label:
  assumes "is_digit h" "is_digit a" "is_digit b" "is_digit c" "is_digit d"
  shows "parse_fiscal_year FY_PATTERNS (CHR ''H'' # h # CHR ''-'' # [a, b, c, d]) = Inr None"
  using assms by (simp add: FY_PATTERNS_def sym_eval)

lemma quarter_H_label:
  assumes "is_digit h" "is_digit a" "is_digit b" "is_digit c" "is_digit d"
  shows "parse_quarter QUARTER_PATTERNS (CHR ''H'' # h # CHR ''-'' # [a, b, c, d]) = Inr None"
  using assms by (simp add: QUARTER_PATTERNS_def sym_eval)

lemma half_H_label:
  assumes "is_digit h" "is_digit a" "is_digit b" "is_digit c" "is_digit d"
  shows "parse_half_year HALF_YEAR_PATTERNS (CHR ''H'' # h # CHR ''-'' # [a, b, c, d]) = Inr None"
  using assms by (simp add: HALF_YEAR_PATTERNS_def sym_eval)

lemma strip_label:
  assumes "\<not> is_space x" "is_digit d"
  shows "strip (x # q # CHR ''-'' # [a, b, c, d]) = x # q # CHR ''-'' # [a, b, c, d]"
proof (rule strip_id)
  show "\<not> is_space (hd (x # q # CHR ''-'' # [a, b, c, d]))" using assms by simp
  show "\<not> is_space (last (x # q # CHR ''-'' # [a, b, c, d]))"
    using assms by (simp add: digit_not_space)
qed simp

lemma parse_Q_label:
  assumes "is_digit q" "is_digit a" "is_digit b" "is_digit c" "is_digit d"
  shows "parse_period_label (CHR ''Q'' # q # CHR ''-'' # [a, b, c, d]) = Inr None"
proof -
  have "\<not> is_space CHR ''Q''" by (simp add: is_space_def)
  then have s: "strip (CHR ''Q'' # q # CHR ''-'' # [a, b, c, d])
                  = CHR ''Q'' # q # CHR ''-'' # [a, b, c, d]"
    using assms(5) by (rule strip_label)
  show ?thesis
    unfolding parse_period_label_def s Let_def
    by (simp only: fy_Q_label [OF assms] quarter_Q_label [OF assms] half_Q_label [OF assms]
        sum.case option.case)
qed

lemma parse_H_label:
  assumes "is_digit h" "is_digit a" "is_digit b" "is_digit c" "is_digit d"
  shows "parse_period_label (CHR ''H'' # h # CHR ''-'' # [a, b, c, d]) = Inr None"
proof -
  have "\<not> is_space CHR ''H''" by (simp add: is_space_def)
  then have s: "strip (CHR ''H'' # h # CHR ''-'' # [a, b, c, d])
                  = CHR ''H'' # h # CHR ''-'' # [a, b, c, d]"
    using assms(5) by (rule strip_label)
  show ?thesis
    unfolding parse_period_label_def s Let_def
    by (simp only: fy_H_label [OF assms] quarter_H_label [OF assms] half_H_label [OF assms]
        sum.case option.case)
qed

text \<open>The groups of a match.\<close>

lemma rx_match_no_groups:
  "n_groups r = 0 \<Longrightarrow> st' \<in> set (rx_match ic r st) \<Longrightarrow> fst st' = fst st"
proof (induction r arbitrary: st st')
  case Eps
  then show ?case by simp
next
  case (Lit s)
  obtain caps prev inp where st: "st = (caps, prev, inp)" by (cases st)
  from Lit.prems(2) show ?case unfolding st by (simp split: if_splits)
next
  case (Cls k)
  obtain caps prev inp where st: "st = (caps, prev, inp)" by (cases st)
  from Cls.prems(2) show ?case unfolding st by (auto split: list.splits if_splits)
next
  case (Rep k lo hi greedy)
  obtain caps prev inp where st: "st = (caps, prev, inp)" by (cases st)
  from Rep.prems(2) show ?case unfolding st by (auto simp: Let_def)
next
  case (Seq r1 r2)
  from Seq.prems(2) obtain mid where m: "mid \<in> set (rx_match ic r1 st)"
    and s: "st' \<in> set (rx_match ic r2 mid)" by auto
  from Seq.prems(1) have z: "n_groups r1 = 0" "n_groups r2 = 0" by simp_all
  from Seq.IH(1) [OF z(1) m] Seq.IH(2) [OF z(2) s] show ?case by simp
next
  case (Alt r1 r2)
  from Alt.prems(1) have z: "n_groups r1 = 0" "n_groups r2 = 0" by simp_all
  from Alt.prems(2) have "st' \<in> set (rx_match ic r1 st) \<or> st' \<in> set (rx_match ic r2 st)"
    by simp
  with Alt.IH(1) [OF z(1)] Alt.IH(2) [OF z(2)] show ?case by blast
next
  case (Opt r)
  from Opt.prems(1) have z: "n_groups r = 0" by simp
  from Opt.prems(2) have "st' \<in> set (rx_match ic r st) \<or> st' = st" by auto
  with Opt.IH [OF z] show ?case by blast
next
  case (Grp r)
  then show ?case by simp
next
  case WordB
  obtain caps prev inp where st: "st = (caps, prev, inp)" by (cases st)
  from WordB.prems(2) show ?case unfolding st by (simp split: if_splits)
qed

lemma rx_match_groups:
  "plain r \<Longrightarrow> st' \<in> set (rx_match ic r st) \<Longrightarrow>
     \<exists>new. fst st' = fst st @ new \<and> length new = n_groups r"
proof (induction r arbitrary: st st')
  case (Seq r1 r2)
  from Seq.prems(2) obtain mid where m: "mid \<in> set (rx_match ic r1 st)"
    and s: "st' \<in> set (rx_match ic r2 mid)" by auto
  from Seq.prems(1) have p: "plain r1" "plain r2" by simp_all
  from Seq.IH(1) [OF p(1) m] obtain n1 where
    n1: "fst mid = fst st @ n1" "length n1 = n_groups r1" by blast
  from Seq.IH(2) [OF p(2) s] obtain n2 where
    n2: "fst st' = fst mid @ n2" "length n2 = n_groups r2" by blast
  from n1 n2 have "fst st' = fst st @ (n1 @ n2) \<and> length (n1 @ n2) = n_groups (Seq r1 r2)"
    by simp
  then show ?case by (rule exI)
next
  case (Grp r)
  obtain caps prev inp where st: "st = (caps, prev, inp)" by (cases st)
  from Grp.prems(2) obtain x where x: "x \<in> set (rx_match ic r st)"
    and e: "fst st' = fst x @ [take (length inp - length (snd (snd x))) inp]"
    unfolding st by (auto split: prod.splits)
  from Grp.prems(1) have z: "n_groups r = 0" by simp
  from rx_match_no_groups [OF z x] e z
  have "fst st' = fst st @ [take (length inp - length (snd (snd x))) inp] \<and>
        length [take (length inp - length (snd (snd x))) inp] = n_groups (Grp r)"
    by simp
  then show ?case by (rule exI)
next
  case (Alt r1 r2)
  from Alt.prems(1) have "n_groups (Alt r1 r2) = 0" by simp
  from rx_match_no_groups [OF this Alt.prems(2)] this show ?case by simp
next
  case (Opt r)
  from Opt.prems(1) have "n_groups (Opt r) = 0" by simp
  from rx_match_no_groups [OF this Opt.prems(2)] this show ?case by simp
next
  case Eps
  have "n_groups Eps = 0" by simp
  from rx_match_no_groups [OF this Eps.prems(2)] this show ?case by simp
next
  case (Lit s)
  have "n_groups (Lit s) = 0" by simp
  from rx_match_no_groups [OF this Lit.prems(2)] this show ?case by simp
next
  case (Cls k)
  have "n_groups (Cls k) = 0" by simp
  from rx_match_no_groups [OF this Cls.prems(2)] this show ?case by simp
next
  case (Rep k lo hi greedy)
  have "n_groups (Rep k lo hi greedy) = 0" by simp
  from rx_match_no_groups [OF this Rep.prems(2)] this show ?case by simp
next
  case WordB
  have "n_groups WordB = 0" by simp
  from rx_match_no_groups [OF this WordB.prems(2)] this show ?case by simp
qed

lemma search_from_caps:
  "search_from ic r pre prev inp = Some (a, m, caps) \<Longrightarrow>
     \<exists>prev' inp' st'. st' \<in> set (rx_match ic r ([], prev', inp')) \<and> fst st' = caps"
proof (induction inp arbitrary: pre prev)
  case Nil
  then show ?case
  proof (cases "rx_match ic r ([], prev, [])")
    case Nil
    with Nil.prems show ?thesis by simp
  next
    case (Cons x xs)
    with Nil.prems have "fst x = caps" by (auto split: prod.splits)
    moreover from Cons have "x \<in> set (rx_match ic r ([], prev, []))" by simp
    ultimately show ?thesis by blast
  qed
next
  case (Cons c cs)
  show ?case
  proof (cases "rx_match ic r ([], prev, c # cs)")
    case Nil
    with Cons.prems have "search_from ic r (pre @ [c]) (Some c) cs = Some (a, m, caps)" by simp
    then show ?thesis by (rule Cons.IH)
  next
    case (Cons x xs)
    with Cons.prems have "fst x = caps" by (auto split: prod.splits)
    moreover from Cons have "x \<in> set (rx_match ic r ([], prev, c # cs))" by simp
    ultimately show ?thesis by blast
  qed
qed

lemma re_search_groups:
  assumes "plain r" "re_search ic r s = Some (a, m, caps)"
  shows "length caps = n_groups r"
proof -
  from assms(2) obtain prev' inp' st' where
    "st' \<in> set (rx_match ic r ([], prev', inp'))" "fst st' = caps"
    unfolding re_search_def by (blast dest: search_from_caps)
  with rx_match_groups [OF assms(1), of st'] show ?thesis by fastforce
qed

text \<open>The quarter and the half that a successful parse reports.\<close>

lemma month_of_range: "month_of g = Some m \<Longrightarrow> 1 \<le> m \<and> m \<le> 12"
  by (auto simp: month_of_def MONTH_MAP_def split: if_splits)

lemma quarter_starts_keys: "dict_get quarter_starts q = Inr x \<Longrightarrow> 1 \<le> q \<and> q \<le> 4"
  by (auto simp: dict_get_def quarter_starts_def split: if_splits option.splits)

lemma quarter_of_month:
  "1 \<le> (m :: int) \<Longrightarrow> m \<le> 12 \<Longrightarrow> 1 \<le> (m - 1) div 3 + 1 \<and> (m - 1) div 3 + 1 \<le> 4"
  by auto

lemma parse_quarter_range:
  "parse_quarter ps L = Inr (Some p) \<Longrightarrow>
     period_type p = QUARTER \<and> (\<exists>q. p_quarter p = Some q \<and> 1 \<le> q \<and> q \<le> 4) \<and>
     1 \<le> p_fiscal_year p \<and> p_fiscal_year p \<le> 9999"
proof (induction ps)
  case Nil
  then show ?case by simp
next
  case (Cons r ps)
  show ?case
  proof (cases "parse_quarter ps L = Inr (Some p)")
    case True
    then show ?thesis by (rule Cons.IH)
  next
    case False
    with Cons.prems show ?thesis
      by (auto simp: Let_def quarter_of_month
          dest!: date_year_range quarter_starts_keys month_of_range
          split: option.splits prod.splits list.splits sum.splits if_splits)
  qed
qed

lemma grp_cls_single:
  "st' \<in> set (rx_match ic (Grp (Cls k)) st) \<Longrightarrow> \<exists>c. fst st' = fst st @ [[c]]"
proof -
  assume a: "st' \<in> set (rx_match ic (Grp (Cls k)) st)"
  obtain caps prev inp where st: "st = (caps, prev, inp)" by (cases st)
  show ?thesis
  proof (cases inp)
    case Nil
    with a st show ?thesis by simp
  next
    case (Cons c cs)
    with a st have "fst st' = caps @ [[c]]" by (auto split: if_splits)
    with st show ?thesis by simp
  qed
qed

lemma seq_elim:
  "st' \<in> set (rx_match ic (Seq r1 r2) st) \<Longrightarrow>
     \<exists>mid \<in> set (rx_match ic r1 st). st' \<in> set (rx_match ic r2 mid)"
  by auto

lemma half_pattern_0_groups:
  assumes "re_search True (HALF_YEAR_PATTERNS ! 0) s = Some (a, m, caps)"
  shows "\<exists>c g. caps = [[c], g]"
proof -
  let ?A = "Alt (Lit ''H'') (Lit ''Half'')"
  let ?R = "Seq sp0 (Seq (Opt (Lit ''FY'')) (Seq (Grp (Rep digit_cls 4 (Some 4) True)) Eps))"
  have hp: "HALF_YEAR_PATTERNS ! 0 = Seq ?A (Seq sp0 (Seq (Grp (Cls digit_cls)) ?R))"
    by (simp add: HALF_YEAR_PATTERNS_def seq_def)
  from assms obtain prev' inp' st' where
    st': "st' \<in> set (rx_match True (Seq ?A (Seq sp0 (Seq (Grp (Cls digit_cls)) ?R)))
                     ([], prev', inp'))"
    and c: "fst st' = caps"
    unfolding re_search_def hp by (blast dest: search_from_caps)
  from seq_elim [OF st'] obtain m1 where
    m1: "m1 \<in> set (rx_match True ?A ([], prev', inp'))" and
    r1: "st' \<in> set (rx_match True (Seq sp0 (Seq (Grp (Cls digit_cls)) ?R)) m1)"
    by blast
  from seq_elim [OF r1] obtain m2 where
    m2: "m2 \<in> set (rx_match True sp0 m1)" and
    r2: "st' \<in> set (rx_match True (Seq (Grp (Cls digit_cls)) ?R) m2)"
    by blast
  from seq_elim [OF r2] obtain m3 where
    m3: "m3 \<in> set (rx_match True (Grp (Cls digit_cls)) m2)" and
    m4: "st' \<in> set (rx_match True ?R m3)"
    by blast
  have "fst m1 = []" using rx_match_no_groups [OF _ m1] by simp
  moreover have "fst m2 = fst m1" using rx_match_no_groups [OF _ m2] by (simp add: sp0_def)
  moreover from grp_cls_single [OF m3] obtain x where "fst m3 = fst m2 @ [[x]]" by blast
  moreover have "plain ?R" "n_groups ?R = 1" by (simp_all add: sp0_def)
  with rx_match_groups [OF _ m4] obtain new where "fst st' = fst m3 @ new" "length new = 1"
    by auto
  moreover then obtain g where "new = [g]" by (cases new) auto
  ultimately have "caps = [[x], g]" using c by simp
  then show ?thesis by blast
qed

lemma half_pattern_1_groups:
  assumes "re_search True (HALF_YEAR_PATTERNS ! 1) s = Some (a, m, caps)"
  shows "length caps = 3"
proof -
  have "plain (HALF_YEAR_PATTERNS ! 1)" "n_groups (HALF_YEAR_PATTERNS ! 1) = 3"
    by (simp_all add: HALF_YEAR_PATTERNS_def seq_def sp1_def day_month_year_def)
  with re_search_groups [OF _ assms] show ?thesis by simp
qed

lemma half_step:
  assumes p: "parse_half_year (r # ps) L = Inr (Some p)"
    and shape: "\<And>a m caps. re_search True r L = Some (a, m, caps) \<Longrightarrow>
                  (\<exists>c g. caps = [[c], g]) \<or> length caps = 3"
  shows "(period_type p = HALF_YEAR \<and> (\<exists>h. p_half p = Some h \<and> 0 \<le> h \<and> h \<le> 9) \<and>
          1 \<le> p_fiscal_year p \<and> p_fiscal_year p \<le> 9999) \<or>
         parse_half_year ps L = Inr (Some p)"
proof (cases "re_search True r L")
  case None
  with p show ?thesis by simp
next
  case (Some x)
  obtain a m caps where x: "x = (a, m, caps)" by (cases x)
  from shape [of a m caps] Some x
  consider c g where "caps = [[c], g]" | "length caps = 3" by blast
  then show ?thesis
  proof cases
    case 1
    show ?thesis
    proof (cases "is_digit c")
      case True
      then have "digit_val c < 10" by (rule digit_val_less_10)
      then have h: "0 \<le> int_of_digits [c]" "int_of_digits [c] \<le> 9"
        by (simp_all add: int_of_digits_def)
      from p Some x 1 True h show ?thesis
        by (auto simp: Let_def dest!: date_year_range split: sum.splits if_splits)
    next
      case False
      with p Some x 1 show ?thesis by simp
    qed
  next
    case 2
    then obtain g0 g1 g2 where c: "caps = [g0, g1, g2]"
      by (cases caps; simp; rename_tac y ys; case_tac ys; simp; rename_tac z zs;
          case_tac zs; simp)
    from p Some x c show ?thesis
      by (auto simp: Let_def dest!: date_year_range month_of_range
          split: option.splits sum.splits if_splits)
  qed
qed

lemma parse_half_year_range:
  assumes "parse_half_year HALF_YEAR_PATTERNS L = Inr (Some p)"
  shows "period_type p = HALF_YEAR \<and> (\<exists>h. p_half p = Some h \<and> 0 \<le> h \<and> h \<le> 9) \<and>
         1 \<le> p_fiscal_year p \<and> p_fiscal_year p \<le> 9999"
proof -
  have ps: "HALF_YEAR_PATTERNS = [HALF_YEAR_PATTERNS ! 0, HALF_YEAR_PATTERNS ! 1]"
    by (simp add: HALF_YEAR_PATTERNS_def)
  from assms have a: "parse_half_year (HALF_YEAR_PATTERNS ! 0 # [HALF_YEAR_PATTERNS ! 1]) L
                        = Inr (Some p)"
    using ps by simp
  show ?thesis
  proof (rule disjE [OF half_step [OF a]])
    fix a m caps
    assume "re_search True (HALF_YEAR_PATTERNS ! 0) L = Some (a, m, caps)"
    then show "(\<exists>c g. caps = [[c], g]) \<or> length caps = 3"
      by (blast dest: half_pattern_0_groups)
  next
    assume b: "parse_half_year [HALF_YEAR_PATTERNS ! 1] L = Inr (Some p)"
    show ?thesis
    proof (rule disjE [OF half_step [OF b]])
      fix a m caps
      assume "re_search True (HALF_YEAR_PATTERNS ! 1) L = Some (a, m, caps)"
      then show "(\<exists>c g. caps = [[c], g]) \<or> length caps = 3"
        by (blast dest: half_pattern_1_groups)
    next
      assume "parse_half_year [] L = Inr (Some p)"
      then show ?thesis by simp
    qed
  qed
qed

lemma parse_period_label_ranges:
  assumes "parse_period_label L = Inr (Some p)"
  shows "(period_type p = FISCAL_YEAR \<and> 1 \<le> p_fiscal_year p \<and> p_fiscal_year p \<le> 9999) \<or>
         (period_type p = QUARTER \<and> (\<exists>q. p_quarter p = Some q \<and> 1 \<le> q \<and> q \<le> 4) \<and>
          1 \<le> p_fiscal_year p \<and> p_fiscal_year p \<le> 9999) \<or>
         (period_type p = HALF_YEAR \<and> (\<exists>h. p_half p = Some h \<and> 0 \<le> h \<and> h \<le> 9) \<and>
          1 \<le> p_fiscal_year p \<and> p_fiscal_year p \<le> 9999)"
proof (cases "parse_fiscal_year FY_PATTERNS (strip L)")
  case (Inl e)
  with assms show ?thesis by (simp add: parse_period_label_def)
next
  case fy: (Inr a)
  show ?thesis
  proof (cases a)
    case (Some x)
    with fy assms have "x = p" by (simp add: parse_period_label_def)
    with fy Some parse_fiscal_year_Some [of FY_PATTERNS "strip L" p] show ?thesis by simp
  next
    case None
    show ?thesis
    proof (cases "parse_quarter QUARTER_PATTERNS (strip L)")
      case (Inl e)
      with fy None assms show ?thesis by (simp add: parse_period_label_def)
    next
      case q: (Inr b)
      show ?thesis
      proof (cases b)
        case (Some x)
        with fy None q assms have "x = p" by (simp add: parse_period_label_def)
        with q Some parse_quarter_range [of QUARTER_PATTERNS "strip L" p] show ?thesis by simp
      next
        case qn: None
        with fy None q assms have "parse_half_year HALF_YEAR_PATTERNS (strip L) = Inr (Some p)"
          by (simp add: parse_period_label_def)
        from parse_half_year_range [OF this] show ?thesis by simp
      qed
    qed
  qed
qed

lemma single_digit:
  assumes "0 \<le> q" "q \<le> 9"
  obtains c where "str_int q = [c]" "is_digit c"
proof -
  have "nat q < 10" using assms by simp
  then have "str_nat (nat q) = [digit_char (nat q)]" "is_digit (digit_char (nat q))"
    by (simp_all add: str_nat.simps is_digit_digit_char)
  then show ?thesis using assms that by (simp add: str_int_def)
qed

lemma parse_Q_normalized:
  assumes "0 \<le> q" "q \<le> 9" "1000 \<le> y" "y \<le> 9999"
  shows "parse_period_label (''Q'' @ str_int q @ ''-'' @ str_int y) = Inr None"
proof -
  from assms(1,2) obtain x where x: "str_int q = [x]" "is_digit x" by (rule single_digit)
  from assms(3,4) obtain a b c d where s: "str_int y = [a, b, c, d]"
    and dg: "is_digit a" "is_digit b" "is_digit c" "is_digit d"
    by (rule four_digit_year)
  from parse_Q_label [OF x(2) dg] show ?thesis unfolding x s by simp
qed

lemma parse_H_normalized:
  assumes "0 \<le> h" "h \<le> 9" "1000 \<le> y" "y \<le> 9999"
  shows "parse_period_label (''H'' @ str_int h @ ''-'' @ str_int y) = Inr None"
proof -
  from assms(1,2) obtain x where x: "str_int h = [x]" "is_digit x" by (rule single_digit)
  from assms(3,4) obtain a b c d where s: "str_int y = [a, b, c, d]"
    and dg: "is_digit a" "is_digit b" "is_digit c" "is_digit d"
    by (rule four_digit_year)
  from parse_H_label [OF x(2) dg] show ?thesis unfolding x s by simp
qed

text \<open>
  Claim C5, period normalisation.  When \<open>parse_period_label\<close> succeeds on a label, the
  normalised label has one of the three forms \<^verbatim>\<open>FY{year}\<close>, \<^verbatim>\<open>Q{n}-{year}\<close>, \<^verbatim>\<open>H{n}-{year}\<close>.
  For a four-digit fiscal year, the \<^verbatim>\<open>FY\<close> form parses again, to a fiscal-year period of the
  same fiscal year, while the \<^verbatim>\<open>Q\<close> and \<^verbatim>\<open>H\<close> forms are labels that the parser rejects: no
  pattern allows the hyphen between the digit and the year.
\<close>

theorem normalize_period_label_round_trip:
  assumes "parse_period_label L = Inr (Some p)"
  shows "(period_type p = FISCAL_YEAR \<and>
          normalize_period_label L = Inr (''FY'' @ str_int (p_fiscal_year p)) \<and>
          (1000 \<le> p_fiscal_year p \<longrightarrow>
             (\<exists>p'. parse_period_label (''FY'' @ str_int (p_fiscal_year p)) = Inr (Some p') \<and>
                   period_type p' = FISCAL_YEAR \<and> p_fiscal_year p' = p_fiscal_year p))) \<or>
         (period_type p = QUARTER \<and>
          (\<exists>q. p_quarter p = Some q \<and>
               normalize_period_label L =
                 Inr (''Q'' @ str_int q @ ''-'' @ str_int (p_fiscal_year p)) \<and>
               (1000 \<le> p_fiscal_year p \<longrightarrow>
                  parse_period_label (''Q'' @ str_int q @ ''-'' @ str_int (p_fiscal_year p))
                    = Inr None))) \<or>
         (period_type p = HALF_YEAR \<and>
          (\<exists>h. p_half p = Some h \<and>
               normalize_period_label L =
                 Inr (''H'' @ str_int h @ ''-'' @ str_int (p_fiscal_year p)) \<and>
               (1000 \<le> p_fiscal_year p \<longrightarrow>
                  parse_period_label (''H'' @ str_int h @ ''-'' @ str_int (p_fiscal_year p))
                    = Inr None)))"
proof -
  note c = parse_period_label_ranges [OF assms]
  note n = normalize_forms [OF assms]
  show ?thesis
  proof (cases "period_type p")
    case FISCAL_YEAR
    with c have r: "1 \<le> p_fiscal_year p" "p_fiscal_year p \<le> 9999" by simp_all
    have "1000 \<le> p_fiscal_year p \<longrightarrow>
             (\<exists>p'. parse_period_label (''FY'' @ str_int (p_fiscal_year p)) = Inr (Some p') \<and>
                   period_type p' = FISCAL_YEAR \<and> p_fiscal_year p' = p_fiscal_year p)"
    proof
      assume "1000 \<le> p_fiscal_year p"
      from parse_FY_year [OF this r(2)] show
        "\<exists>p'. parse_period_label (''FY'' @ str_int (p_fiscal_year p)) = Inr (Some p') \<and>
              period_type p' = FISCAL_YEAR \<and> p_fiscal_year p' = p_fiscal_year p"
        by simp
    qed
    with FISCAL_YEAR n show ?thesis by simp
  next
    case QUARTER
    with c obtain q where q: "p_quarter p = Some q" "1 \<le> q" "q \<le> 4"
      and r: "p_fiscal_year p \<le> 9999" by auto
    have "1000 \<le> p_fiscal_year p \<longrightarrow>
            parse_period_label (''Q'' @ str_int q @ ''-'' @ str_int (p_fiscal_year p)) = Inr None"
      using q r by (intro impI parse_Q_normalized) simp_all
    with QUARTER n q show ?thesis by simp
  next
    case HALF_YEAR
    with c obtain h where h: "p_half p = Some h" "0 \<le> h" "h \<le> 9"
      and r: "p_fiscal_year p \<le> 9999" by auto
    have "1000 \<le> p_fiscal_year p \<longrightarrow>
            parse_period_label (''H'' @ str_int h @ ''-'' @ str_int (p_fiscal_year p)) = Inr None"
      using h r by (intro impI parse_H_normalized) simp_all
    with HALF_YEAR n h show ?thesis by simp
  qed
qed

lemma parse_fy_2022_23: "parse_period_label ''2022/23'' = Inr (Some fy_2022_23)"
  by code_simp

lemma parse_h2_2023: "parse_period_label ''H2 2023'' = Inr (Some h2_2023)"
  by code_simp

theorem normalize_period_label_round_trip_witness:
  "parse_period_label ''2022/23'' = Inr (Some fy_2022_23) \<and>
   normalize_period_label ''2022/23'' = Inr ''FY2023'' \<and>
   (\<exists>p'. parse_period_label ''FY2023'' = Inr (Some p') \<and>
         period_type p' = FISCAL_YEAR \<and> p_fiscal_year p' = 2023) \<and>
   parse_period_label ''H2 2023'' = Inr (Some h2_2023) \<and>
   normalize_period_label ''H2 2023'' = Inr ''H2-2023'' \<and>
   parse_period_label ''H2-2023'' = Inr None"
proof -
  have s: "str_int 2023 = ''2023''" "str_int 2 = ''2''" by code_simp+
  have t: "period_type fy_2022_23 = FISCAL_YEAR" "p_fiscal_year fy_2022_23 = 2023"
    "period_type h2_2023 = HALF_YEAR" "p_fiscal_year h2_2023 = 2023" "p_half h2_2023 = Some 2"
    by (simp_all add: fy_2022_23_def h2_2023_def)
  from normalize_period_label_round_trip [OF parse_fy_2022_23]
    normalize_period_label_round_trip [OF parse_h2_2023] parse_fy_2022_23 parse_h2_2023
  show ?thesis unfolding t by (simp add: s)
qed

text \<open>
  The round trip of the claim fails at the quarter label \<^verbatim>\<open>Q1 2023\<close>: it is normalised to
  \<^verbatim>\<open>Q1-2023\<close>, on which the parser returns \<^verbatim>\<open>None\<close>.
\<close>

theorem normalize_period_label_counterexample:
  "parse_period_label ''Q1 2023'' = Inr (Some q1_2023) \<and>
   normalize_period_label ''Q1 2023'' = Inr ''Q1-2023'' \<and>
   parse_period_label ''Q1-2023'' = Inr None"
  by code_simp

text \<open>\<^verbatim>\<open>str\<close> drops the leading zero of a year below 1000.\<close>

lemma normalize_three_digit_year:
  "normalize_period_label ''FY0999'' = Inr ''FY999'' \<and> parse_period_label ''FY999'' = Inr None"
  by code_simp

end
